theory Spec2Isabelle
  imports Complex_Main "HOL-Library.Word"
begin

unbundle bit_operations_syntax

chapter \<open>URL-synchronised state: the hooks of use-prms\<close>

text \<open>
  A shallow embedding of \<^verbatim>\<open>src/useUrlState.ts\<close> (the four hooks, their debounce helper and
  the snapshot cache), of the codecs of \<^verbatim>\<open>src/params.ts\<close> that the examples use, and of the
  base64url module (\<^verbatim>\<open>binary.ts\<close>). The two location strategies, whose implementation
  (\<^verbatim>\<open>core.ts\<close>) is not among the sources, are modelled from the spec; the hooks themselves
  take the strategy as a parameter.

  Conventions of the embedding.
  \<^item> \<^verbatim>\<open>string | undefined\<close> is \<open>string option\<close>, \<^verbatim>\<open>T | null\<close> is \<open>'a option\<close>.
  \<^item> A plain JavaScript object used as a dictionary (\<^verbatim>\<open>Record<string, X>\<close>) is an association
    list in insertion order: assignment to an existing key keeps its position, assignment
    to a new key appends, \<^verbatim>\<open>delete\<close> removes. (JavaScript enumerates keys that look like
    array indices before all others; no statement below depends on where a new key is
    placed, and assignment to the key \<^verbatim>\<open>__proto__\<close>, which sets the prototype of the
    object instead of a property, is not modelled.) A lookup \<^verbatim>\<open>obj[k]\<close> or \<^verbatim>\<open>k in obj\<close> by
    an arbitrary key also finds the members inherited from \<^verbatim>\<open>Object.prototype\<close>
    (\<open>getProperty\<close>): this concerns the \<^verbatim>\<open>params\<close> object of a batched hook, the snapshot
    (\<open>valuesOf\<close>), the dictionary of causality records (\<open>lookupWritten\<close>) and the buffer
    of pending values (\<open>mergePending\<close>).
  \<^item> A React ref is a field of the hook's state record; every function that writes a ref
    returns the updated record.
  \<^item> The browser (location, history, timers, clock) is the record \<open>env\<close>, passed through
    every function that touches it.
  \<^item> Object identity, where the code compares references, is a number carried by the
    object (\<open>pid\<close> of a codec, \<open>sid\<close> of a location strategy, the index of a snapshot object
    in the store).
\<close>

section \<open>Encoded values and dictionaries\<close>

type_synonym Encoded = "string option"
type_synonym MultiEncoded = "string list"
type_synonym 'a Record = "(string \<times> 'a) list"

text \<open>\<^verbatim>\<open>obj[k]\<close>, \<^verbatim>\<open>obj[k] = v\<close> and \<^verbatim>\<open>delete obj[k]\<close> on a dictionary object.\<close>

fun rec_get :: "'a Record \<Rightarrow> string \<Rightarrow> 'a option" where
  "rec_get [] k = None"
| "rec_get ((k', v) # r) k = (if k' = k then Some v else rec_get r k)"

fun rec_set :: "string \<Rightarrow> 'a \<Rightarrow> 'a Record \<Rightarrow> 'a Record" where
  "rec_set k v [] = [(k, v)]"
| "rec_set k v ((k', v') # r) = (if k' = k then (k, v) # r else (k', v') # rec_set k v r)"

fun rec_delete :: "string \<Rightarrow> 'a Record \<Rightarrow> 'a Record" where
  "rec_delete k [] = []"
| "rec_delete k ((k', v') # r) = (if k' = k then rec_delete k r else (k', v') # rec_delete k r)"

text \<open>
  A thrown exception. Functions of the source that can throw return a sum (\<open>Inl\<close> the
  exception) or, where the state at the throw matters, the exception next to the state.
\<close>

datatype exn = Thrown string

text \<open>
  Property lookup \<^verbatim>\<open>obj[k]\<close> on a plain object (an object literal, or \<^verbatim>\<open>{}\<close> filled by
  assignments). Besides the object's own properties the lookup finds the members that
  every such object inherits from \<^verbatim>\<open>Object.prototype\<close>; those are functions (for
  \<^verbatim>\<open>__proto__\<close>, an object), so they are truthy, not nullish, and have no property
  \<^verbatim>\<open>encode\<close>, \<^verbatim>\<open>encoded\<close> or \<^verbatim>\<open>decoded\<close>. \<^verbatim>\<open>k in obj\<close> is true exactly when the lookup
  finds an own or an inherited member.
\<close>

definition objectPrototypeKeys :: "string list" where
  "objectPrototypeKeys =
     [''constructor'', ''__defineGetter__'', ''__defineSetter__'', ''hasOwnProperty'',
      ''__lookupGetter__'', ''__lookupSetter__'', ''isPrototypeOf'', ''propertyIsEnumerable'',
      ''toString'', ''valueOf'', ''__proto__'', ''toLocaleString'']"

datatype 'a property = Undefined | Inherited | Own 'a

definition getProperty :: "'a Record \<Rightarrow> string \<Rightarrow> 'a property" where
  "getProperty obj k =
     (case rec_get obj k of
        Some v \<Rightarrow> Own v
      | None \<Rightarrow> if k \<in> set objectPrototypeKeys then Inherited else Undefined)"

text \<open>
  The \<^verbatim>\<open>length\<close> property of an inherited member: the number of parameters of the
  function; \<^verbatim>\<open>__proto__\<close> reads \<^verbatim>\<open>Object.prototype\<close> itself, which has no \<^verbatim>\<open>length\<close>. None
  of the members has an indexed property, so \<^verbatim>\<open>member[i]\<close> is \<^verbatim>\<open>undefined\<close> for every \<open>i\<close>.
\<close>

definition memberLength :: "string \<Rightarrow> nat option" where
  "memberLength k =
     (if k \<in> set [''toString'', ''valueOf'', ''toLocaleString''] then Some 0
      else if k \<in> set [''constructor'', ''hasOwnProperty'', ''isPrototypeOf'',
                        ''propertyIsEnumerable'', ''__lookupGetter__'', ''__lookupSetter__'']
      then Some 1
      else if k \<in> set [''__defineGetter__'', ''__defineSetter__''] then Some 2
      else None)"

text \<open>
  What \<^verbatim>\<open>urlParams[key] ?? []\<close> reads from a snapshot. The snapshot is a plain object
  (\<^verbatim>\<open>getServerSnapshot\<close> returns \<^verbatim>\<open>{}\<close>): for a key that the snapshot does not hold and
  that names a member of \<^verbatim>\<open>Object.prototype\<close>, the lookup yields that member, and \<^verbatim>\<open>??\<close>
  keeps it. \<open>Listed m\<close> is the list \<open>m\<close>, \<open>Member k\<close> the inherited member named \<open>k\<close>.
\<close>

datatype slot = Listed MultiEncoded | Member string

definition valuesOf :: "MultiEncoded Record \<Rightarrow> string \<Rightarrow> slot" where
  "valuesOf urlParams key =
     (case getProperty urlParams key of
        Own m \<Rightarrow> Listed m
      | Inherited \<Rightarrow> Member key
      | Undefined \<Rightarrow> Listed [])"

definition singleToMulti :: "Encoded \<Rightarrow> MultiEncoded" where
  "singleToMulti encoded = (case encoded of None \<Rightarrow> [] | Some s \<Rightarrow> [s])"

text \<open>
  \<^verbatim>\<open>if (multi.length === 0) return undefined; return multi[0]\<close>. Handed an inherited
  member, the function returns \<^verbatim>\<open>undefined\<close> on either path: at the test when the
  member's \<^verbatim>\<open>length\<close> is 0, and as \<^verbatim>\<open>member[0]\<close> otherwise.
\<close>

fun multiToSingle :: "slot \<Rightarrow> Encoded" where
  "multiToSingle (Listed multi) = (if length multi = 0 then None else Some (multi ! 0))"
| "multiToSingle (Member k) = (if memberLength k = Some 0 then None else None)"

text \<open>
  \<^verbatim>\<open>a.length === b.length && a.every((v, i) => v === b[i])\<close>: the second conjunct is only
  evaluated when the lengths agree, so every index read is in range.
\<close>

definition arraysEqual :: "'a list \<Rightarrow> 'a list \<Rightarrow> bool" where
  "arraysEqual a b =
     (if length a = length b then list_all (\<lambda>i. a ! i = b ! i) [0..<length a] else False)"

text \<open>
  \<^verbatim>\<open>arraysEqual\<close> as the repeated-value hook calls it, with what it read from the snapshot
  as second argument. Against an inherited member the lengths are compared with the
  member's \<^verbatim>\<open>length\<close>, and every element of \<open>a\<close>, a string, with \<^verbatim>\<open>undefined\<close>.
\<close>

fun arraysEqualSlot :: "MultiEncoded \<Rightarrow> slot \<Rightarrow> bool" where
  "arraysEqualSlot a (Listed b) = arraysEqual a b"
| "arraysEqualSlot a (Member k) =
     (if Some (length a) = memberLength k then list_all (\<lambda>v. False) a else False)"

section \<open>Codecs\<close>

text \<open>
  \<^verbatim>\<open>Param<T>\<close> (\<open>'e = Encoded\<close>) and \<^verbatim>\<open>MultiParam<T>\<close> (\<open>'e = MultiEncoded\<close>): an object with
  an \<^verbatim>\<open>encode\<close> and a \<^verbatim>\<open>decode\<close> function. \<open>pid\<close> is the identity of the object.
\<close>

record ('e, 'v) codec =
  pid :: nat
  encode :: "'v \<Rightarrow> 'e"
  decode :: "'e \<Rightarrow> 'v"

type_synonym 'v Param = "(Encoded, 'v) codec"
type_synonym 'v MultiParam = "(MultiEncoded, 'v) codec"

text \<open>Codecs of \<^verbatim>\<open>params.ts\<close>; the first argument is the identity of the object created.\<close>

definition stringParam :: "nat \<Rightarrow> string option \<Rightarrow> string option Param" where
  "stringParam p init =
     \<lparr> pid = p,
       encode = (\<lambda>v. if v = init then None else v),
       decode = (\<lambda>encoded. if encoded = None then init else encoded) \<rparr>"

definition defStringParam :: "nat \<Rightarrow> string \<Rightarrow> string Param" where
  "defStringParam p init =
     \<lparr> pid = p,
       encode = (\<lambda>v. if v = init then None else Some v),
       decode = (\<lambda>encoded. case encoded of None \<Rightarrow> init | Some s \<Rightarrow> s) \<rparr>"

definition boolParam :: "nat \<Rightarrow> bool Param" where
  "boolParam p =
     \<lparr> pid = p,
       encode = (\<lambda>v. if v then Some [] else None),
       decode = (\<lambda>encoded. encoded \<noteq> None) \<rparr>"

text \<open>
  \<^verbatim>\<open>codeParam(init, codeMap)\<close> with the code map given as an array of pairs.
  \<^verbatim>\<open>new Map(entries)\<close> keeps the last entry of a repeated key.
\<close>

definition mapOfEntries :: "(string \<times> string) list \<Rightarrow> string \<Rightarrow> string option" where
  "mapOfEntries entries = map_of (rev entries)"

definition codeParam :: "nat \<Rightarrow> string \<Rightarrow> (string \<times> string) list \<Rightarrow> string Param" where
  "codeParam p init entries =
     (let valueToCode = mapOfEntries entries;
          codeToValue = mapOfEntries (map (\<lambda>(v, c). (c, v)) entries)
      in \<lparr> pid = p,
           encode = (\<lambda>v. if v = init then None
                      else Some (case valueToCode v of Some c \<Rightarrow> c | None \<Rightarrow> v)),
           decode = (\<lambda>encoded. case encoded of None \<Rightarrow> init
                      | Some s \<Rightarrow> (case codeToValue s of Some v \<Rightarrow> v | None \<Rightarrow> init)) \<rparr>)"

text \<open>\<^verbatim>\<open>multiStringParam(init)\<close> of \<^verbatim>\<open>multiParams.ts\<close>.\<close>

definition multiStringParam :: "nat \<Rightarrow> string list \<Rightarrow> string list MultiParam" where
  "multiStringParam p init =
     \<lparr> pid = p,
       encode = (\<lambda>vs. if length vs = 0 \<and> length init = 0 then []
                       else if arraysEqual vs init then [] else vs),
       decode = (\<lambda>encoded. if length encoded = 0 then init else encoded) \<rparr>"

text \<open>
  What a hook hands to the component for a key. Besides a value of the codec's type
  (\<open>Value\<close>) the batched and the repeated-value hooks can produce, for a key that names a
  member of \<^verbatim>\<open>Object.prototype\<close>: \<^verbatim>\<open>undefined\<close> (\<open>UndefinedValue\<close>), the member itself
  (\<open>MemberValue\<close>), or whatever the codec's \<^verbatim>\<open>decode\<close> makes of the member, which is not a
  list and so lies outside the domain the codec is written for (\<open>DecodedMember\<close>).
\<close>

datatype 'v observed = Value 'v | UndefinedValue | MemberValue string | DecodedMember string

text \<open>\<^verbatim>\<open>param.decode(encoded)\<close> in the repeated-value hook.\<close>

definition decodeSlot :: "'v MultiParam \<Rightarrow> slot \<Rightarrow> 'v observed" where
  "decodeSlot param encoded =
     (case encoded of
        Listed m \<Rightarrow> Value (decode param m)
      | Member k \<Rightarrow> DecodedMember k)"

section \<open>Location strategies and the snapshot cache\<close>

text \<open>
  \<^verbatim>\<open>LocationStrategy\<close> is an interface: the hooks work with any object that implements
  it. Its operations are the fields of a record, each a function of the browser's current
  location (\<^verbatim>\<open>window.location.href\<close>). \<open>sid\<close> is the identity of the strategy object.
\<close>

record LocationStrategy =
  sid :: nat
  getRaw :: "string \<Rightarrow> string"
  parse :: "string \<Rightarrow> MultiEncoded Record"
  buildUrl :: "string \<Rightarrow> MultiEncoded Record \<Rightarrow> string"

text \<open>
  The module-level \<^verbatim>\<open>snapshotCache\<close> (a \<^verbatim>\<open>WeakMap\<close> keyed by strategy object) and the parsed
  objects it refers to. An object reference is an index into \<open>objects\<close>; \<^verbatim>\<open>strategy.parse()\<close>
  creates a new object, that is, appends one.
\<close>

record snapshotEntry =
  se_raw :: string
  se_snapshot :: nat

record snapshotStore =
  objects :: "MultiEncoded Record list"
  snapshotCache :: "nat \<Rightarrow> snapshotEntry option"

definition parseFresh :: "LocationStrategy \<Rightarrow> string \<Rightarrow> snapshotStore \<Rightarrow> nat \<times> snapshotStore" where
  "parseFresh strategy location st =
     (length (objects st), st\<lparr>objects := objects st @ [parse strategy location]\<rparr>)"

text \<open>The last three lines of \<^verbatim>\<open>getSnapshot\<close>: parse, store in the cache, return.\<close>

definition reparse :: "LocationStrategy \<Rightarrow> string \<Rightarrow> string \<Rightarrow> snapshotStore \<Rightarrow> nat \<times> snapshotStore" where
  "reparse strategy location raw st =
     (let (snapshot, st1) = parseFresh strategy location st
      in (snapshot,
          st1\<lparr>snapshotCache := (snapshotCache st1)
                (sid strategy \<mapsto> \<lparr>se_raw = raw, se_snapshot = snapshot\<rparr>)\<rparr>))"

definition getSnapshot :: "LocationStrategy \<Rightarrow> string \<Rightarrow> snapshotStore \<Rightarrow> nat \<times> snapshotStore" where
  "getSnapshot strategy location st =
     (let raw = getRaw strategy location;
          cached = snapshotCache st (sid strategy)
      in case cached of
           Some c \<Rightarrow> if se_raw c = raw then (se_snapshot c, st)
                     else reparse strategy location raw st
         | None \<Rightarrow> reparse strategy location raw st)"

definition getServerSnapshot :: "MultiEncoded Record" where
  "getServerSnapshot = []"

section \<open>The browser: location, history, timers\<close>

text \<open>
  A live timeout created by \<^verbatim>\<open>setTimeout\<close>: its id, the time at which it is due and the
  arguments its callback was closed over. \<open>timeouts\<close> holds the timeouts created on behalf
  of one hook instance, oldest first.
\<close>

record 'a timeout =
  timer_id :: nat
  due :: nat
  args :: 'a

record 'a env =
  has_window :: bool
  href :: string
  history_calls :: "(bool \<times> string) list"
  popstates :: nat
  clock :: nat
  last_timer :: nat
  timeouts :: "'a timeout list"

text \<open>Timer ids are positive integers, handed out in sequence.\<close>

definition setTimeout :: "'a \<Rightarrow> nat \<Rightarrow> 'a env \<Rightarrow> nat \<times> 'a env" where
  "setTimeout a ms e =
     (let i = Suc (last_timer e)
      in (i, e\<lparr>last_timer := i,
                timeouts := timeouts e @ [\<lparr>timer_id = i, due = clock e + ms, args = a\<rparr>]\<rparr>))"

definition clearTimeout :: "nat \<Rightarrow> 'a env \<Rightarrow> 'a env" where
  "clearTimeout i e = e\<lparr>timeouts := filter (\<lambda>t. timer_id t \<noteq> i) (timeouts e)\<rparr>"

text \<open>
  \<^verbatim>\<open>window.history[method]({...window.history.state}, '', newUrl)\<close> followed by
  \<^verbatim>\<open>window.dispatchEvent(new PopStateEvent('popstate'))\<close>: the location becomes \<open>newUrl\<close>,
  the call is recorded (\<open>True\<close> for \<^verbatim>\<open>pushState\<close>), one notification is counted.
\<close>

definition historyWrite :: "bool \<Rightarrow> string \<Rightarrow> 'a env \<Rightarrow> 'a env" where
  "historyWrite push newUrl e =
     e\<lparr>href := newUrl,
       history_calls := history_calls e @ [(push, newUrl)],
       popstates := Suc (popstates e)\<rparr>"

section \<open>debounce\<close>

text \<open>
  The closure returned by \<^verbatim>\<open>debounce(fn, ms)\<close> has one variable, \<^verbatim>\<open>timeoutId\<close>
  (\<open>None\<close> for \<^verbatim>\<open>null\<close>). \<^verbatim>\<open>if (timeoutId)\<close> tests truthiness: \<^verbatim>\<open>null\<close> and \<^verbatim>\<open>0\<close> are falsy.
\<close>

definition truthy :: "nat option \<Rightarrow> bool" where
  "truthy timeoutId = (case timeoutId of None \<Rightarrow> False | Some i \<Rightarrow> i \<noteq> 0)"

definition idOf :: "nat option \<Rightarrow> nat" where
  "idOf timeoutId = (case timeoutId of None \<Rightarrow> 0 | Some i \<Rightarrow> i)"

definition debounced :: "nat \<Rightarrow> 'a \<Rightarrow> nat option \<Rightarrow> 'a env \<Rightarrow> nat option \<times> 'a env" where
  "debounced ms a timeoutId e =
     (let e1 = (if truthy timeoutId then clearTimeout (idOf timeoutId) e else e);
          (i, e2) = setTimeout a ms e1
      in (Some i, e2))"

definition cancel :: "nat option \<Rightarrow> 'a env \<Rightarrow> nat option \<times> 'a env" where
  "cancel timeoutId e =
     (if truthy timeoutId then (None, clearTimeout (idOf timeoutId) e) else (timeoutId, e))"

text \<open>
  The refs of a hook instance. \<open>debouncedWriteRef\<close> is \<open>None\<close> for \<^verbatim>\<open>null\<close> and
  \<open>Some t\<close> for a debounced closure whose \<^verbatim>\<open>timeoutId\<close> is \<open>t\<close>.
\<close>

record ('e, 'v) lastWritten =
  lw_encoded :: 'e
  lw_decoded :: 'v

record 'd pendingWrite =
  pw_decoded :: 'd
  prevRaw :: string

record ('lw, 'd, 'c) refs =
  lastWrittenRef :: 'lw
  pendingRef :: "'d pendingWrite option"
  cacheRef :: 'c
  debouncedWriteRef :: "nat option option"

text \<open>\<^verbatim>\<open>debouncedWriteRef.current?.cancel()\<close>\<close>

definition cancelRef :: "('lw, 'd, 'c) refs \<times> 'a env \<Rightarrow> ('lw, 'd, 'c) refs \<times> 'a env" where
  "cancelRef st =
     (let (h, e) = st
      in case debouncedWriteRef h of
           None \<Rightarrow> (h, e)
         | Some t \<Rightarrow> (let (t', e') = cancel t e in (h\<lparr>debouncedWriteRef := Some t'\<rparr>, e')))"

text \<open>
  The effect that installs the debounced writer (\<^verbatim>\<open>useEffect\<close> on \<^verbatim>\<open>debounceMs\<close>), and its
  cleanup, which also runs on unmount.
\<close>

definition installDebounce :: "nat \<Rightarrow> ('lw, 'd, 'c) refs \<Rightarrow> ('lw, 'd, 'c) refs" where
  "installDebounce debounceMs h =
     h\<lparr>debouncedWriteRef := (if debounceMs > 0 then Some None else None)\<rparr>"

definition cleanup :: "('lw, 'd, 'c) refs \<times> 'a env \<Rightarrow> ('lw, 'd, 'c) refs \<times> 'a env" where
  "cleanup st = cancelRef st"

text \<open>
  The clock advances by \<open>d\<close> milliseconds; every timeout then due runs its callback, oldest
  first. A callback runs only if its timeout is still live when its turn comes, and a
  timeout that runs is no longer live.
\<close>

definition dueNow :: "'a env \<Rightarrow> 'a timeout list" where
  "dueNow e = filter (\<lambda>t. due t \<le> clock e) (timeouts e)"

definition isLive :: "'a timeout \<Rightarrow> 'a env \<Rightarrow> bool" where
  "isLive t e = (timer_id t \<in> set (map timer_id (timeouts e)))"

definition elapse ::
  "('a timeout \<Rightarrow> 's \<times> 'a env \<Rightarrow> 's \<times> 'a env) \<Rightarrow> nat \<Rightarrow> 's \<times> 'a env \<Rightarrow> 's \<times> 'a env" where
  "elapse callback d st =
     (let (h, e) = st;
          e1 = e\<lparr>clock := clock e + d\<rparr>
      in foldl (\<lambda>s t. if isLive t (snd s)
                       then callback t (fst s, clearTimeout (timer_id t) (snd s)) else s)
           (h, e1) (dueNow e1))"

section \<open>useUrlState\<close>

record 'v decodeCache =
  dc_encoded :: Encoded
  dc_param :: nat
  dc_decoded :: 'v

type_synonym 'v UrlState =
  "((Encoded, 'v) lastWritten option, 'v, 'v decodeCache option) refs"

type_synonym 'v UrlStateEnv = "('v \<times> Encoded) env"

text \<open>The state of a freshly mounted hook, after its effect has run.\<close>

definition useUrlState_mount :: "nat \<Rightarrow> 'v UrlState" where
  "useUrlState_mount debounceMs =
     installDebounce debounceMs
       \<lparr>lastWrittenRef = None, pendingRef = None, cacheRef = None, debouncedWriteRef = None\<rparr>"

text \<open>
  ``External change or initial load -- decode from URL'': the memoised decode through
  \<^verbatim>\<open>cacheRef\<close>, after which \<^verbatim>\<open>lastWrittenRef\<close> is cleared.
\<close>

definition decodeFromUrl :: "'v Param \<Rightarrow> Encoded \<Rightarrow> 'v UrlState \<Rightarrow> 'v \<times> 'v UrlState" where
  "decodeFromUrl param encoded h =
     (let fresh = \<lparr>dc_encoded = encoded, dc_param = pid param,
                   dc_decoded = decode param encoded\<rparr>;
          c' = (case cacheRef h of
                  None \<Rightarrow> fresh
                | Some c \<Rightarrow> if dc_encoded c \<noteq> encoded \<or> dc_param c \<noteq> pid param
                            then fresh else c)
      in (dc_decoded c', h\<lparr>cacheRef := Some c', lastWrittenRef := None\<rparr>))"

text \<open>
  The body of the hook from \<^verbatim>\<open>const encoded = ...\<close> to the end of the \<^verbatim>\<open>if\<close> chain that
  computes \<^verbatim>\<open>value\<close>. \<open>urlParams\<close> is the snapshot \<^verbatim>\<open>useSyncExternalStore\<close> returned and
  \<open>raw\<close> the result of \<^verbatim>\<open>strategy.getRaw()\<close>.
\<close>

definition useUrlState_render ::
  "string \<Rightarrow> 'v Param \<Rightarrow> MultiEncoded Record \<Rightarrow> string \<Rightarrow> 'v UrlState \<times> 'a env
     \<Rightarrow> 'v \<times> ('v UrlState \<times> 'a env)" where
  "useUrlState_render key param urlParams raw st =
     (let (h, e) = st;
          encoded = multiToSingle (valuesOf urlParams key)
      in case pendingRef h of
           Some p \<Rightarrow>
             if raw \<noteq> prevRaw p then
               (let (h1, e1) = cancelRef (h\<lparr>pendingRef := None\<rparr>, e);
                    (v, h2) = decodeFromUrl param encoded h1
                in (v, (h2, e1)))
             else (pw_decoded p, (h, e))
         | None \<Rightarrow>
             (case lastWrittenRef h of
                Some w \<Rightarrow>
                  if lw_encoded w = encoded then (lw_decoded w, (h, e))
                  else (let (v, h1) = decodeFromUrl param encoded h in (v, (h1, e)))
              | None \<Rightarrow> (let (v, h1) = decodeFromUrl param encoded h in (v, (h1, e)))))"

text \<open>
  ``Update this parameter (single \<open>\<rightarrow>\<close> multi)'': the key is deleted when the new encoded value
  is absent, and set to the one-element list otherwise.
\<close>

definition updateParam :: "string \<Rightarrow> Encoded \<Rightarrow> MultiEncoded Record \<Rightarrow> MultiEncoded Record" where
  "updateParam key newEncoded currentParams =
     (case newEncoded of
        None \<Rightarrow> rec_delete key currentParams
      | Some s \<Rightarrow> rec_set key [s] currentParams)"

definition useUrlState_writeToUrl ::
  "LocationStrategy \<Rightarrow> string \<Rightarrow> bool \<Rightarrow> 'v \<Rightarrow> Encoded \<Rightarrow> 'a env \<Rightarrow> 'a env" where
  "useUrlState_writeToUrl strategy key push newValue newEncoded e =
     (if \<not> has_window e then e
      else (let currentParams = parse strategy (href e);
                currentParams' = updateParam key newEncoded currentParams;
                newUrl = buildUrl strategy (href e) currentParams'
            in historyWrite push newUrl e))"

text \<open>The callback of the debounced writer's timeout.\<close>

definition useUrlState_timeout ::
  "LocationStrategy \<Rightarrow> string \<Rightarrow> bool \<Rightarrow> ('v \<times> Encoded) timeout
     \<Rightarrow> 'v UrlState \<times> 'v UrlStateEnv \<Rightarrow> 'v UrlState \<times> 'v UrlStateEnv" where
  "useUrlState_timeout strategy key push t st =
     (let (h, e) = st;
          h1 = h\<lparr>debouncedWriteRef := map_option (\<lambda>_. None) (debouncedWriteRef h)\<rparr>;
          e1 = useUrlState_writeToUrl strategy key push (fst (args t)) (snd (args t)) e
      in (h1\<lparr>pendingRef := None\<rparr>, e1))"

definition useUrlState_setValue ::
  "LocationStrategy \<Rightarrow> string \<Rightarrow> bool \<Rightarrow> nat \<Rightarrow> 'v Param \<Rightarrow> 'v
     \<Rightarrow> 'v UrlState \<times> 'v UrlStateEnv \<Rightarrow> 'v UrlState \<times> 'v UrlStateEnv" where
  "useUrlState_setValue strategy key push debounceMs param newValue st =
     (let (h, e) = st;
          newEncoded = encode param newValue;
          h1 = h\<lparr>lastWrittenRef := Some \<lparr>lw_encoded = newEncoded, lw_decoded = newValue\<rparr>\<rparr>
      in case debouncedWriteRef h1 of
           Some t \<Rightarrow>
             (let h2 = h1\<lparr>pendingRef :=
                          Some \<lparr>pw_decoded = newValue, prevRaw = getRaw strategy (href e)\<rparr>\<rparr>;
                  (t', e') = debounced debounceMs (newValue, newEncoded) t e
              in (h2\<lparr>debouncedWriteRef := Some t'\<rparr>, e'))
         | None \<Rightarrow> (h1, useUrlState_writeToUrl strategy key push newValue newEncoded e))"

text \<open>
  After \<^verbatim>\<open>setValue\<close> React renders the component again: under debounce because of the
  final \<^verbatim>\<open>forceUpdate()\<close>, otherwise because of the notification of the commit. One write
  request as the component sees it: the call of \<^verbatim>\<open>setValue\<close>, then that render, on the
  snapshot and the raw string of the location as it is then.
\<close>

definition useUrlState_request ::
  "LocationStrategy \<Rightarrow> string \<Rightarrow> bool \<Rightarrow> nat \<Rightarrow> 'v Param \<Rightarrow> 'v
     \<Rightarrow> 'v UrlState \<times> 'v UrlStateEnv \<Rightarrow> 'v UrlState \<times> 'v UrlStateEnv" where
  "useUrlState_request strategy key push debounceMs param v st =
     (let st1 = useUrlState_setValue strategy key push debounceMs param v st
      in snd (useUrlState_render key param (parse strategy (href (snd st1)))
                (getRaw strategy (href (snd st1))) st1))"

text \<open>A burst of write requests: before each one the clock advances by the given gap.\<close>

fun useUrlState_burst ::
  "LocationStrategy \<Rightarrow> string \<Rightarrow> bool \<Rightarrow> nat \<Rightarrow> 'v Param \<Rightarrow> (nat \<times> 'v) list
     \<Rightarrow> 'v UrlState \<times> 'v UrlStateEnv \<Rightarrow> 'v UrlState \<times> 'v UrlStateEnv" where
  "useUrlState_burst strategy key push debounceMs param [] st = st"
| "useUrlState_burst strategy key push debounceMs param ((gap, v) # reqs) st =
     useUrlState_burst strategy key push debounceMs param reqs
       (useUrlState_request strategy key push debounceMs param v
          (elapse (useUrlState_timeout strategy key push) gap st))"

section \<open>useUrlStates\<close>

type_synonym 'v written = "(Encoded, 'v) lastWritten"

type_synonym 'v UrlStates = "('v written Record, 'v Record, unit) refs"

type_synonym 'v UrlStatesEnv = "('v written Record) env"

definition useUrlStates_mount :: "nat \<Rightarrow> 'v UrlStates" where
  "useUrlStates_mount debounceMs =
     installDebounce debounceMs
       \<lparr>lastWrittenRef = [], pendingRef = None, cacheRef = (), debouncedWriteRef = None\<rparr>"

text \<open>
  The three \<^verbatim>\<open>Object.fromEntries(Object.entries(params).map(...))\<close> of the render. The
  first one decodes every key from the snapshot.
\<close>

definition decodeAll :: "'v Param Record \<Rightarrow> MultiEncoded Record \<Rightarrow> 'v observed Record" where
  "decodeAll params urlParams =
     map (\<lambda>(key, param). (key, Value (decode param (multiToSingle (valuesOf urlParams key)))))
       params"

text \<open>
  \<^verbatim>\<open>const lastWritten = lastWrittenRef.current[key]\<close> and the test
  \<^verbatim>\<open>lastWritten && lastWritten.encoded === encoded\<close>, with \<^verbatim>\<open>lastWritten.decoded\<close> on a hit.
  The dictionary of records is a plain object (\<^verbatim>\<open>{}\<close>): for a key without a record that
  names an inherited member the lookup yields the member, which is truthy and whose
  \<^verbatim>\<open>encoded\<close> and \<^verbatim>\<open>decoded\<close> are both \<^verbatim>\<open>undefined\<close>.
\<close>

definition lookupWritten :: "'v written Record \<Rightarrow> string \<Rightarrow> Encoded \<Rightarrow> 'v observed option" where
  "lookupWritten written key encoded =
     (case getProperty written key of
        Own w \<Rightarrow> if lw_encoded w = encoded then Some (Value (lw_decoded w)) else None
      | Inherited \<Rightarrow> if None = encoded then Some UndefinedValue else None
      | Undefined \<Rightarrow> None)"

text \<open>
  The second one merges the buffered values: \<^verbatim>\<open>key in pendingRef.current.values\<close> holds
  for an own and for an inherited member of the buffer, and \<^verbatim>\<open>values[key]\<close> reads it.
\<close>

definition mergePending ::
  "'v Param Record \<Rightarrow> MultiEncoded Record \<Rightarrow> 'v Record \<Rightarrow> 'v written Record
     \<Rightarrow> 'v observed Record" where
  "mergePending params urlParams pendingValues written =
     map (\<lambda>(key, param).
            case getProperty pendingValues key of
              Own v \<Rightarrow> (key, Value v)
            | Inherited \<Rightarrow> (key, MemberValue key)
            | Undefined \<Rightarrow>
                (let encoded = multiToSingle (valuesOf urlParams key)
                 in case lookupWritten written key encoded of
                      Some v \<Rightarrow> (key, v)
                    | None \<Rightarrow> (key, Value (decode param encoded))))
         params"

text \<open>
  The third one, without a pending write: a key whose record does not match is decoded
  and its record deleted (\<^verbatim>\<open>delete\<close> removes an own property only).
\<close>

fun decodeTracked ::
  "'v Param Record \<Rightarrow> MultiEncoded Record \<Rightarrow> 'v written Record
     \<Rightarrow> 'v observed Record \<times> 'v written Record" where
  "decodeTracked [] urlParams written = ([], written)"
| "decodeTracked ((key, param) # params) urlParams written =
     (let encoded = multiToSingle (valuesOf urlParams key)
      in case lookupWritten written key encoded of
           Some v \<Rightarrow>
             (let (vs, written') = decodeTracked params urlParams written
              in ((key, v) # vs, written'))
         | None \<Rightarrow>
             (let decoded = decode param encoded;
                  (vs, written') = decodeTracked params urlParams (rec_delete key written)
              in ((key, Value decoded) # vs, written')))"

definition useUrlStates_render ::
  "'v Param Record \<Rightarrow> MultiEncoded Record \<Rightarrow> string \<Rightarrow> 'v UrlStates \<times> 'a env
     \<Rightarrow> 'v observed Record \<times> ('v UrlStates \<times> 'a env)" where
  "useUrlStates_render params urlParams raw st =
     (let (h, e) = st
      in case pendingRef h of
           Some p \<Rightarrow>
             if raw \<noteq> prevRaw p then
               (let (h1, e1) = cancelRef (h\<lparr>pendingRef := None\<rparr>, e);
                    h2 = h1\<lparr>lastWrittenRef := []\<rparr>
                in (decodeAll params urlParams, (h2, e1)))
             else (mergePending params urlParams (pw_decoded p) (lastWrittenRef h), (h, e))
         | None \<Rightarrow>
             (let (values, written) = decodeTracked params urlParams (lastWrittenRef h)
              in (values, (h\<lparr>lastWrittenRef := written\<rparr>, e))))"

text \<open>The loop of \<^verbatim>\<open>writeToUrl\<close> over \<^verbatim>\<open>Object.entries(updates)\<close>.\<close>

fun applyUpdates :: "'v written Record \<Rightarrow> MultiEncoded Record \<Rightarrow> MultiEncoded Record" where
  "applyUpdates [] currentParams = currentParams"
| "applyUpdates ((key, u) # updates) currentParams =
     applyUpdates updates (updateParam key (lw_encoded u) currentParams)"

definition useUrlStates_writeToUrl ::
  "LocationStrategy \<Rightarrow> bool \<Rightarrow> 'v written Record \<Rightarrow> 'a env \<Rightarrow> 'a env" where
  "useUrlStates_writeToUrl strategy push updates e =
     (if \<not> has_window e then e
      else (let currentParams = parse strategy (href e);
                currentParams' = applyUpdates updates currentParams;
                newUrl = buildUrl strategy (href e) currentParams'
            in historyWrite push newUrl e))"

definition useUrlStates_timeout ::
  "LocationStrategy \<Rightarrow> bool \<Rightarrow> ('v written Record) timeout
     \<Rightarrow> 'v UrlStates \<times> 'v UrlStatesEnv \<Rightarrow> 'v UrlStates \<times> 'v UrlStatesEnv" where
  "useUrlStates_timeout strategy push t st =
     (let (h, e) = st;
          h1 = h\<lparr>debouncedWriteRef := map_option (\<lambda>_. None) (debouncedWriteRef h)\<rparr>;
          e1 = useUrlStates_writeToUrl strategy push (args t) e
      in (h1\<lparr>pendingRef := None\<rparr>, e1))"

text \<open>
  The first loop of \<^verbatim>\<open>setValues\<close>: it fills \<^verbatim>\<open>encodedUpdates\<close> and \<^verbatim>\<open>lastWrittenRef.current\<close>.
  \<^verbatim>\<open>const param = params[key]; if (!param) continue\<close> passes over a key for which the lookup
  gives \<^verbatim>\<open>undefined\<close>. For an inherited member the test does not fire, and
  \<^verbatim>\<open>param.encode(value)\<close> calls \<^verbatim>\<open>undefined\<close>: a \<^verbatim>\<open>TypeError\<close> leaves the loop and the function,
  with the records written so far in place. The result is the exception, if any, and the
  two dictionaries.
\<close>

fun encodeUpdates ::
  "'v Param Record \<Rightarrow> 'v Record \<Rightarrow> 'v written Record \<times> 'v written Record
     \<Rightarrow> exn option \<times> 'v written Record \<times> 'v written Record" where
  "encodeUpdates params [] acc = (None, acc)"
| "encodeUpdates params ((key, v) # updates) acc =
     (case getProperty params key of
        Undefined \<Rightarrow> encodeUpdates params updates acc
      | Inherited \<Rightarrow> (Some (Thrown ''TypeError''), acc)
      | Own param \<Rightarrow>
          (let encoded = encode param v;
               w = \<lparr>lw_encoded = encoded, lw_decoded = v\<rparr>
           in encodeUpdates params updates (rec_set key w (fst acc), rec_set key w (snd acc))))"

text \<open>The second loop: \<^verbatim>\<open>pendingValues[key] = value\<close> for every entry of \<^verbatim>\<open>updates\<close>.\<close>

fun addPending :: "'v Record \<Rightarrow> 'v Record \<Rightarrow> 'v Record" where
  "addPending [] pendingValues = pendingValues"
| "addPending ((key, v) # updates) pendingValues = addPending updates (rec_set key v pendingValues)"

definition useUrlStates_setValues ::
  "LocationStrategy \<Rightarrow> bool \<Rightarrow> nat \<Rightarrow> 'v Param Record \<Rightarrow> 'v Record
     \<Rightarrow> 'v UrlStates \<times> 'v UrlStatesEnv \<Rightarrow> exn option \<times> 'v UrlStates \<times> 'v UrlStatesEnv" where
  "useUrlStates_setValues strategy push debounceMs params updates st =
     (let (h, e) = st;
          (thrown, encodedUpdates, written) = encodeUpdates params updates ([], lastWrittenRef h);
          h1 = h\<lparr>lastWrittenRef := written\<rparr>
      in case thrown of
           Some ex \<Rightarrow> (Some ex, (h1, e))
         | None \<Rightarrow>
             (None,
              case debouncedWriteRef h1 of
                Some t \<Rightarrow>
                  (let pendingValues =
                         (case pendingRef h1 of None \<Rightarrow> [] | Some p \<Rightarrow> pw_decoded p);
                       pendingValues' = addPending updates pendingValues;
                       h2 = h1\<lparr>pendingRef :=
                               Some \<lparr>pw_decoded = pendingValues',
                                     prevRaw = getRaw strategy (href e)\<rparr>\<rparr>;
                       (t', e') = debounced debounceMs encodedUpdates t e
                   in (h2\<lparr>debouncedWriteRef := Some t'\<rparr>, e'))
              | None \<Rightarrow> (h1, useUrlStates_writeToUrl strategy push encodedUpdates e)))"

section \<open>useMultiUrlState and useMultiUrlStates\<close>

type_synonym 'v MultiUrlState = "((MultiEncoded, 'v) lastWritten option, 'v, unit) refs"

definition useMultiUrlState_mount :: "nat \<Rightarrow> 'v MultiUrlState" where
  "useMultiUrlState_mount debounceMs =
     installDebounce debounceMs
       \<lparr>lastWrittenRef = None, pendingRef = None, cacheRef = (), debouncedWriteRef = None\<rparr>"

text \<open>
  The body of the hook from \<^verbatim>\<open>const encoded = urlParams[key] ?? []\<close> to the end of the
  \<^verbatim>\<open>if\<close> chain. Here what the lookup found is used as it is.
\<close>

definition useMultiUrlState_render ::
  "string \<Rightarrow> 'v MultiParam \<Rightarrow> MultiEncoded Record \<Rightarrow> string \<Rightarrow> 'v MultiUrlState \<times> 'a env
     \<Rightarrow> 'v observed \<times> ('v MultiUrlState \<times> 'a env)" where
  "useMultiUrlState_render key param urlParams raw st =
     (let (h, e) = st;
          encoded = valuesOf urlParams key
      in case pendingRef h of
           Some p \<Rightarrow>
             if raw \<noteq> prevRaw p then
               (let (h1, e1) = cancelRef (h\<lparr>pendingRef := None\<rparr>, e)
                in (decodeSlot param encoded, (h1\<lparr>lastWrittenRef := None\<rparr>, e1)))
             else (Value (pw_decoded p), (h, e))
         | None \<Rightarrow>
             (case lastWrittenRef h of
                Some w \<Rightarrow>
                  if arraysEqualSlot (lw_encoded w) encoded then (Value (lw_decoded w), (h, e))
                  else (decodeSlot param encoded, (h\<lparr>lastWrittenRef := None\<rparr>, e))
              | None \<Rightarrow> (decodeSlot param encoded, (h\<lparr>lastWrittenRef := None\<rparr>, e))))"

type_synonym 'v multiWritten = "(MultiEncoded, 'v) lastWritten"

type_synonym 'v MultiUrlStates = "('v multiWritten Record, 'v Record, unit) refs"

type_synonym MultiUrlStatesEnv = "(MultiEncoded Record) env"

definition useMultiUrlStates_mount :: "nat \<Rightarrow> 'v MultiUrlStates" where
  "useMultiUrlStates_mount debounceMs =
     installDebounce debounceMs
       \<lparr>lastWrittenRef = [], pendingRef = None, cacheRef = (), debouncedWriteRef = None\<rparr>"

fun applyMultiUpdates :: "MultiEncoded Record \<Rightarrow> MultiEncoded Record \<Rightarrow> MultiEncoded Record" where
  "applyMultiUpdates [] currentParams = currentParams"
| "applyMultiUpdates ((key, encoded) # updates) currentParams =
     applyMultiUpdates updates
       (if length encoded = 0 then rec_delete key currentParams
        else rec_set key encoded currentParams)"

definition useMultiUrlStates_writeToUrl ::
  "LocationStrategy \<Rightarrow> bool \<Rightarrow> MultiEncoded Record \<Rightarrow> 'a env \<Rightarrow> 'a env" where
  "useMultiUrlStates_writeToUrl strategy push updates e =
     (if \<not> has_window e then e
      else (let currentParams = parse strategy (href e);
                currentParams' = applyMultiUpdates updates currentParams;
                newUrl = buildUrl strategy (href e) currentParams'
            in historyWrite push newUrl e))"

fun encodeMultiUpdates ::
  "'v MultiParam Record \<Rightarrow> 'v Record \<Rightarrow> MultiEncoded Record \<times> 'v multiWritten Record
     \<Rightarrow> exn option \<times> MultiEncoded Record \<times> 'v multiWritten Record" where
  "encodeMultiUpdates params [] acc = (None, acc)"
| "encodeMultiUpdates params ((key, v) # updates) acc =
     (case getProperty params key of
        Undefined \<Rightarrow> encodeMultiUpdates params updates acc
      | Inherited \<Rightarrow> (Some (Thrown ''TypeError''), acc)
      | Own param \<Rightarrow>
          (let encoded = encode param v
           in encodeMultiUpdates params updates
                (rec_set key encoded (fst acc),
                 rec_set key \<lparr>lw_encoded = encoded, lw_decoded = v\<rparr> (snd acc))))"

definition useMultiUrlStates_setValues ::
  "LocationStrategy \<Rightarrow> bool \<Rightarrow> nat \<Rightarrow> 'v MultiParam Record \<Rightarrow> 'v Record
     \<Rightarrow> 'v MultiUrlStates \<times> MultiUrlStatesEnv
     \<Rightarrow> exn option \<times> 'v MultiUrlStates \<times> MultiUrlStatesEnv" where
  "useMultiUrlStates_setValues strategy push debounceMs params updates st =
     (let (h, e) = st;
          (thrown, encodedUpdates, written) =
             encodeMultiUpdates params updates ([], lastWrittenRef h);
          h1 = h\<lparr>lastWrittenRef := written\<rparr>
      in case thrown of
           Some ex \<Rightarrow> (Some ex, (h1, e))
         | None \<Rightarrow>
             (None,
              case debouncedWriteRef h1 of
                Some t \<Rightarrow>
                  (let pendingValues =
                         (case pendingRef h1 of None \<Rightarrow> [] | Some p \<Rightarrow> pw_decoded p);
                       pendingValues' = addPending updates pendingValues;
                       h2 = h1\<lparr>pendingRef :=
                               Some \<lparr>pw_decoded = pendingValues',
                                     prevRaw = getRaw strategy (href e)\<rparr>\<rparr>;
                       (t', e') = debounced debounceMs encodedUpdates t e
                   in (h2\<lparr>debouncedWriteRef := Some t'\<rparr>, e'))
              | None \<Rightarrow> (h1, useMultiUrlStates_writeToUrl strategy push encodedUpdates e)))"

section \<open>Base64url and binary codecs\<close>

text \<open>
  A \<^verbatim>\<open>Uint8Array\<close> is a list of 8-bit words. JavaScript's bitwise operators work on 32-bit
  integers: \<^verbatim>\<open><<\<close> is \<open>push_bit\<close>, \<^verbatim>\<open>>>\<close> the sign-propagating \<open>signed_drop_bit\<close>.
\<close>

type_synonym byte = "8 word"
type_synonym int32 = "32 word"

definition BASE64_CHARS :: string where
  "BASE64_CHARS = ''ABCDEFGHIJKLMNOPQRSTUVWXYZabcdefghijklmnopqrstuvwxyz0123456789-_''"

definition BASE64_LOOKUP :: "char \<Rightarrow> nat option" where
  "BASE64_LOOKUP = map_of (zip BASE64_CHARS [0..<length BASE64_CHARS])"

text \<open>\<^verbatim>\<open>bytes[i] ?? 0\<close>: a read past the end is \<^verbatim>\<open>undefined\<close>, replaced by 0.\<close>

definition byteAt :: "byte list \<Rightarrow> nat \<Rightarrow> int32" where
  "byteAt bytes i = (if i < length bytes then ucast (bytes ! i) else 0)"

definition charOf :: "int32 \<Rightarrow> char" where
  "charOf k = BASE64_CHARS ! unat k"

function base64Encode_loop :: "byte list \<Rightarrow> nat \<Rightarrow> string \<Rightarrow> string" where
  "base64Encode_loop bytes i result =
     (if i < length bytes then
        (let b0 = byteAt bytes i;
             b1 = byteAt bytes (i + 1);
             b2 = byteAt bytes (i + 2);
             j = i + 3;
             n = push_bit 16 b0 OR push_bit 8 b1 OR b2;
             r1 = result @ [charOf (signed_drop_bit 18 n AND 0x3f)];
             r2 = r1 @ [charOf (signed_drop_bit 12 n AND 0x3f)];
             r3 = (if int j - 2 < int (length bytes)
                   then r2 @ [charOf (signed_drop_bit 6 n AND 0x3f)] else r2);
             r4 = (if int j - 1 < int (length bytes)
                   then r3 @ [charOf (n AND 0x3f)] else r3)
         in base64Encode_loop bytes j r4)
      else result)"
  by pat_completeness auto
termination
  by (relation "measure (\<lambda>(bytes, i, result). length bytes - i)") auto

definition base64Encode :: "byte list \<Rightarrow> string" where
  "base64Encode bytes = base64Encode_loop bytes 0 []"

text \<open>\<^verbatim>\<open>str.replace(/=+$/, '')\<close>: the trailing run of \<^verbatim>\<open>=\<close> is removed.\<close>

definition stripPadding :: "string \<Rightarrow> string" where
  "stripPadding str = rev (dropWhile (\<lambda>c. c = CHR ''='') (rev str))"

text \<open>\<^verbatim>\<open>str[i]\<close> (\<open>None\<close> for \<^verbatim>\<open>undefined\<close>) and \<^verbatim>\<open>BASE64_LOOKUP.get(c) ?? 0\<close>.\<close>

definition charAt :: "string \<Rightarrow> nat \<Rightarrow> char option" where
  "charAt str i = (if i < length str then Some (str ! i) else None)"

definition lookupOr0 :: "char option \<Rightarrow> int32" where
  "lookupOr0 c = (case c of None \<Rightarrow> 0
                  | Some ch \<Rightarrow> (case BASE64_LOOKUP ch of None \<Rightarrow> 0 | Some k \<Rightarrow> of_nat k))"

function base64Decode_loop :: "string \<Rightarrow> nat \<Rightarrow> byte list \<Rightarrow> byte list" where
  "base64Decode_loop str i bytes =
     (if i < length str then
        (let c0 = lookupOr0 (charAt str i);
             c1 = lookupOr0 (charAt str (i + 1));
             c2 = (if i + 2 < length str then lookupOr0 (charAt str (i + 2)) else 0);
             c3 = (if i + 3 < length str then lookupOr0 (charAt str (i + 3)) else 0);
             n = push_bit 18 c0 OR push_bit 12 c1 OR push_bit 6 c2 OR c3;
             s1 = bytes @ [ucast (signed_drop_bit 16 n AND 0xff)];
             s2 = (if i + 2 < length str then s1 @ [ucast (signed_drop_bit 8 n AND 0xff)] else s1);
             s3 = (if i + 3 < length str then s2 @ [ucast (n AND 0xff)] else s2)
         in base64Decode_loop str (i + 4) s3)
      else bytes)"
  by pat_completeness auto
termination
  by (relation "measure (\<lambda>(str, i, bytes). length str - i)") auto

definition base64Decode :: "string \<Rightarrow> byte list" where
  "base64Decode str = base64Decode_loop (stripPadding str) 0 []"


text \<open>
  \<^verbatim>\<open>binaryParam\<close>. The converters are supplied by the caller and may throw; a thrown
  exception is \<open>Inl\<close>. The result of each of the codec's two functions is a sum as well, so
  that an exception leaving the function would be visible as \<open>Inl\<close>.
\<close>

record 'a BinaryParamOptions =
  toBytes :: "'a \<Rightarrow> exn + byte list"
  fromBytes :: "byte list \<Rightarrow> exn + 'a"

definition binaryParam_encode :: "'a BinaryParamOptions \<Rightarrow> 'a option \<Rightarrow> exn + Encoded" where
  "binaryParam_encode options v =
     (case v of
        None \<Rightarrow> Inr None
      | Some x \<Rightarrow>
          (case toBytes options x of
             Inl ex \<Rightarrow> Inl ex
           | Inr bytes \<Rightarrow> if length bytes = 0 then Inr None else Inr (Some (base64Encode bytes))))"

definition binaryParam_decode :: "'a BinaryParamOptions \<Rightarrow> Encoded \<Rightarrow> exn + 'a option" where
  "binaryParam_decode options encoded =
     (case encoded of
        None \<Rightarrow> Inr None
      | Some s \<Rightarrow>
          if s = [] then Inr None
          else (case fromBytes options (base64Decode s) of
                  Inl ex \<Rightarrow> Inr None
                | Inr x \<Rightarrow> Inr (Some x)))"

section \<open>Auxiliary definitions for the proofs\<close>

text \<open>
  The two base64 loops, block by block: what one iteration appends, as a function of the
  remaining input. These are proof devices; \<open>enc_loop_blocks\<close> and \<open>dec_loop_blocks\<close>
  relate them to the loops.
\<close>

definition pack3 :: "byte \<Rightarrow> byte \<Rightarrow> byte \<Rightarrow> int32" where
  "pack3 a b c = push_bit 16 (ucast a) OR push_bit 8 (ucast b) OR ucast c"

definition sextet :: "nat \<Rightarrow> int32 \<Rightarrow> int32" where
  "sextet k n = signed_drop_bit k n AND 0x3f"

definition join4 :: "int32 \<Rightarrow> int32 \<Rightarrow> int32 \<Rightarrow> int32 \<Rightarrow> int32" where
  "join4 c0 c1 c2 c3 = push_bit 18 c0 OR push_bit 12 c1 OR push_bit 6 c2 OR c3"

definition octet :: "nat \<Rightarrow> int32 \<Rightarrow> byte" where
  "octet k n = ucast (signed_drop_bit k n AND 0xff)"

fun enc_blocks :: "byte list \<Rightarrow> string" where
  "enc_blocks [] = []"
| "enc_blocks [a] = [charOf (sextet 18 (pack3 a 0 0)), charOf (sextet 12 (pack3 a 0 0))]"
| "enc_blocks [a, b] =
     [charOf (sextet 18 (pack3 a b 0)), charOf (sextet 12 (pack3 a b 0)),
      charOf (sextet 6 (pack3 a b 0))]"
| "enc_blocks (a # b # c # rest) =
     [charOf (sextet 18 (pack3 a b c)), charOf (sextet 12 (pack3 a b c)),
      charOf (sextet 6 (pack3 a b c)), charOf (sextet 0 (pack3 a b c))] @ enc_blocks rest"

fun dec_blocks :: "string \<Rightarrow> byte list" where
  "dec_blocks [] = []"
| "dec_blocks [p] = [octet 16 (join4 (lookupOr0 (Some p)) 0 0 0)]"
| "dec_blocks [p, q] = [octet 16 (join4 (lookupOr0 (Some p)) (lookupOr0 (Some q)) 0 0)]"
| "dec_blocks [p, q, r] =
     [octet 16 (join4 (lookupOr0 (Some p)) (lookupOr0 (Some q)) (lookupOr0 (Some r)) 0),
      octet 8 (join4 (lookupOr0 (Some p)) (lookupOr0 (Some q)) (lookupOr0 (Some r)) 0)]"
| "dec_blocks (p # q # r # s # rest) =
     [octet 16 (join4 (lookupOr0 (Some p)) (lookupOr0 (Some q)) (lookupOr0 (Some r)) (lookupOr0 (Some s))),
      octet 8 (join4 (lookupOr0 (Some p)) (lookupOr0 (Some q)) (lookupOr0 (Some r)) (lookupOr0 (Some s))),
      octet 0 (join4 (lookupOr0 (Some p)) (lookupOr0 (Some q)) (lookupOr0 (Some r)) (lookupOr0 (Some s)))]
     @ dec_blocks rest"

section \<open>The location strategies\<close>

text \<open>
  Modelled from the spec: the query-string and hash-fragment location handles of its
  section 6 (\<^verbatim>\<open>getRaw\<close>, \<^verbatim>\<open>parse\<close>, \<^verbatim>\<open>buildUrl\<close>), whose implementation in \<^verbatim>\<open>core.ts\<close> is
  missing. By section 4.4 the location built from a parsed state holds that state: ``keys
  not part of the update, and ordering of untouched repeated-key values, must be preserved
  exactly''. The format follows the comments of the declarations (``repeated keys are
  serialized as separate entries: \<^verbatim>\<open>key=a&key=b\<close>'', ``hash is parsed as URLSearchParams
  format'') and the URLs of the end-to-end tests (\<^verbatim>\<open>/?e\<close> for an empty value,
  \<^verbatim>\<open>/?n=hello\<close>). The characters that delimit entries, keys and the fragment (\<^verbatim>\<open>&\<close>, \<^verbatim>\<open>=\<close>,
  \<^verbatim>\<open>#\<close>) and the escape character \<^verbatim>\<open>%\<close> are written as percent escapes inside a key or a
  value, so that every key and every value can be stored; no other character is escaped.
\<close>

fun escape :: "string \<Rightarrow> string" where
  "escape [] = []"
| "escape (c # s) =
     (if c = CHR ''%'' then ''%25''
      else if c = CHR ''&'' then ''%26''
      else if c = CHR ''='' then ''%3D''
      else if c = CHR ''#'' then ''%23''
      else [c]) @ escape s"

text \<open>
  Modelled from the spec: the inverse of \<open>escape\<close>. A \<^verbatim>\<open>%\<close> that does not begin one of the
  four escapes stands for itself.
\<close>

fun unescape :: "string \<Rightarrow> string" where
  "unescape (c # a # b # s) =
     (if c = CHR ''%'' \<and> a = CHR ''2'' \<and> b = CHR ''5'' then CHR ''%'' # unescape s
      else if c = CHR ''%'' \<and> a = CHR ''2'' \<and> b = CHR ''6'' then CHR ''&'' # unescape s
      else if c = CHR ''%'' \<and> a = CHR ''3'' \<and> b = CHR ''D'' then CHR ''='' # unescape s
      else if c = CHR ''%'' \<and> a = CHR ''2'' \<and> b = CHR ''3'' then CHR ''#'' # unescape s
      else c # unescape (a # b # s))"
| "unescape (c # s) = c # unescape s"
| "unescape [] = []"

text \<open>\<^verbatim>\<open>s.split(c)\<close> and \<^verbatim>\<open>ss.join(c)\<close> for a one-character separator.\<close>

fun splitOn :: "char \<Rightarrow> string \<Rightarrow> string list" where
  "splitOn c [] = [[]]"
| "splitOn c (x # xs) =
     (if x = c then [] # splitOn c xs
      else (case splitOn c xs of w # ws \<Rightarrow> (x # w) # ws | [] \<Rightarrow> [[x]]))"

fun joinWith :: "char \<Rightarrow> string list \<Rightarrow> string" where
  "joinWith c [] = []"
| "joinWith c [s] = s"
| "joinWith c (s # t # ss) = s @ c # joinWith c (t # ss)"

text \<open>
  Modelled from the spec: one entry \<^verbatim>\<open>key=value\<close> is cut at its first \<^verbatim>\<open>=\<close>; an entry
  without \<^verbatim>\<open>=\<close> has the empty value.
\<close>

definition parsePair :: "string \<Rightarrow> string \<times> string" where
  "parsePair s =
     (unescape (takeWhile (\<lambda>c. c \<noteq> CHR ''='') s),
      unescape (drop 1 (dropWhile (\<lambda>c. c \<noteq> CHR ''='') s)))"

text \<open>The values collected so far under a key, none if the key is new.\<close>

definition ownValues :: "MultiEncoded Record \<Rightarrow> string \<Rightarrow> MultiEncoded" where
  "ownValues params key = (case rec_get params key of None \<Rightarrow> [] | Some m \<Rightarrow> m)"

definition collect :: "(string \<times> string) list \<Rightarrow> MultiEncoded Record \<Rightarrow> MultiEncoded Record" where
  "collect pairs acc = foldl (\<lambda>acc (k, v). rec_set k (ownValues acc k @ [v]) acc) acc pairs"

text \<open>
  Modelled from the spec: \<^verbatim>\<open>parseMultiParams\<close>, ``each key maps to an array of all values
  for that key'', the keys in the order of their first entry and the values of a key in
  the order of its entries. Empty entries (as in \<^verbatim>\<open>a=1&&b=2\<close>) are passed over.
\<close>

definition parseMultiParams :: "string \<Rightarrow> MultiEncoded Record" where
  "parseMultiParams source =
     collect (map parsePair (filter (\<lambda>s. s \<noteq> []) (splitOn (CHR ''&'') source))) []"

text \<open>
  Modelled from the spec: one entry is written \<^verbatim>\<open>key=value\<close>, and \<^verbatim>\<open>key\<close> alone for an
  empty value of a non-empty key.
\<close>

definition serializePair :: "string \<Rightarrow> string \<Rightarrow> string" where
  "serializePair k v =
     (if v = [] \<and> k \<noteq> [] then escape k else escape k @ CHR ''='' # escape v)"

text \<open>
  Modelled from the spec: \<^verbatim>\<open>serializeMultiParams\<close>, ``repeated keys are serialized as
  separate entries'', key by key and value by value in the order of the parsed state.
\<close>

definition serializeMultiParams :: "MultiEncoded Record \<Rightarrow> string" where
  "serializeMultiParams params =
     joinWith (CHR ''&'') (concat (map (\<lambda>(k, vs). map (serializePair k) vs) params))"

text \<open>The part of a string after, and before, the first occurrence of a character.\<close>

definition afterChar :: "char \<Rightarrow> string \<Rightarrow> string" where
  "afterChar c s = drop 1 (dropWhile (\<lambda>x. x \<noteq> c) s)"

definition beforeChar :: "char \<Rightarrow> string \<Rightarrow> string" where
  "beforeChar c s = takeWhile (\<lambda>x. x \<noteq> c) s"

text \<open>
  Modelled from the spec: the query-string handle (``reads/writes to
  \<^verbatim>\<open>window.location.search\<close>''). The raw string is the part of the location between the
  first \<^verbatim>\<open>?\<close> and the fragment; \<open>buildUrl\<close> keeps the path and the fragment of the base and
  replaces the query.
\<close>

definition queryStrategy :: LocationStrategy where
  "queryStrategy =
     \<lparr> sid = 1,
       getRaw = (\<lambda>location. afterChar (CHR ''?'') (beforeChar (CHR ''#'') location)),
       parse = (\<lambda>location.
                  parseMultiParams (afterChar (CHR ''?'') (beforeChar (CHR ''#'') location))),
       buildUrl = (\<lambda>base params.
                     beforeChar (CHR ''?'') (beforeChar (CHR ''#'') base)
                     @ (if serializeMultiParams params = [] then []
                        else CHR ''?'' # serializeMultiParams params)
                     @ (if afterChar (CHR ''#'') base = [] then []
                        else CHR ''#'' # afterChar (CHR ''#'') base)) \<rparr>"

text \<open>
  Modelled from the spec: the hash-fragment handle (``reads/writes to
  \<^verbatim>\<open>window.location.hash\<close>''). The raw string is the part of the location after the first
  \<^verbatim>\<open>#\<close>; \<open>buildUrl\<close> keeps what precedes the fragment and replaces the fragment.
\<close>

definition hashStrategy :: LocationStrategy where
  "hashStrategy =
     \<lparr> sid = 2,
       getRaw = (\<lambda>location. afterChar (CHR ''#'') location),
       parse = (\<lambda>location. parseMultiParams (afterChar (CHR ''#'') location)),
       buildUrl = (\<lambda>base params.
                     beforeChar (CHR ''#'') base
                     @ (if serializeMultiParams params = [] then []
                        else CHR ''#'' # serializeMultiParams params)) \<rparr>"

text \<open>
  The parsed states that \<open>parseMultiParams\<close> produces and the commits keep: every key
  once, with at least one value. \<open>pairsOf\<close> lists the entries of such a state in the order
  of serialisation.
\<close>

definition wellFormed :: "MultiEncoded Record \<Rightarrow> bool" where
  "wellFormed params = (distinct (map fst params) \<and> list_all (\<lambda>p. snd p \<noteq> []) params)"

definition pairsOf :: "MultiEncoded Record \<Rightarrow> (string \<times> string) list" where
  "pairsOf params = concat (map (\<lambda>(k, vs). map (Pair k) vs) params)"

section \<open>Instances used in the examples\<close>

text \<open>
  An instance: the bytes are the value itself, \<open>fromBytes\<close> rejects every array that does
  not have exactly two bytes and \<open>toBytes\<close> never throws.
\<close>

definition pairOptions :: "byte list BinaryParamOptions" where
  "pairOptions =
     \<lparr> toBytes = (\<lambda>v. Inr v),
       fromBytes = (\<lambda>bytes. if length bytes = 2 then Inr bytes else Inl (Thrown ''RangeError'')) \<rparr>"

text \<open>A browser showing \<open>location\<close>, at time 0, with no timeout pending.\<close>

definition browserAt :: "string \<Rightarrow> 'a env" where
  "browserAt location =
     \<lparr> has_window = True, href = location, history_calls = [], popstates = 0,
       clock = 0, last_timer = 0, timeouts = [] \<rparr>"

definition emptyStore :: snapshotStore where
  "emptyStore = \<lparr> objects = [], snapshotCache = (\<lambda>_. None) \<rparr>"

text \<open>Code outside the hook moves the browser to another location.\<close>

definition navigate :: "string \<Rightarrow> 'a env \<Rightarrow> 'a env" where
  "navigate location e = e\<lparr>href := location\<rparr>"

section \<open>Invariants of a hook instance\<close>

text \<open>
  The decode cache holds what the codec it names decoded: if the cached codec is \<open>param\<close>
  itself, the cached value is \<open>param\<close>'s decoding of the cached encoded value.
\<close>

definition cacheSound :: "'v Param \<Rightarrow> 'v UrlState \<Rightarrow> bool" where
  "cacheSound param h =
     (case cacheRef h of
        None \<Rightarrow> True
      | Some c \<Rightarrow> dc_param c \<noteq> pid param \<or> dc_decoded c = decode param (dc_encoded c))"

text \<open>
  The live timeouts of an instance are exactly what its debounced closure remembers:
  none when there is no closure or its \<^verbatim>\<open>timeoutId\<close> is \<^verbatim>\<open>null\<close>, and otherwise the single
  timeout with that (positive) id.
\<close>

definition timerInv :: "('lw, 'd, 'c) refs \<times> 'a env \<Rightarrow> bool" where
  "timerInv st =
     (case debouncedWriteRef (fst st) of
        None \<Rightarrow> timeouts (snd st) = []
      | Some None \<Rightarrow> timeouts (snd st) = []
      | Some (Some i) \<Rightarrow> i \<noteq> 0 \<and> map timer_id (timeouts (snd st)) = [i])"

text \<open>
  Two predicates for the proof that a burst of write requests coalesces. \<open>fresh\<close>: the
  instance has a debounced writer and any live timeout is due a full delay from now.
  \<open>coalesced\<close>: exactly the request for \<open>v\<close> is scheduled, buffered and recorded, and
  nothing has been committed since \<open>st0\<close>.
\<close>

definition fresh :: "nat \<Rightarrow> ('lw, 'd, 'c) refs \<times> 'a env \<Rightarrow> bool" where
  "fresh ms st \<longleftrightarrow>
     timerInv st \<and> debouncedWriteRef (fst st) \<noteq> None
     \<and> list_all (\<lambda>t. due t = clock (snd st) + ms) (timeouts (snd st))"

definition coalesced ::
  "LocationStrategy \<Rightarrow> 'v Param \<Rightarrow> nat \<Rightarrow> 'v \<Rightarrow> 'v UrlState \<times> 'v UrlStateEnv
     \<Rightarrow> 'v UrlState \<times> 'v UrlStateEnv \<Rightarrow> bool" where
  "coalesced strategy param ms v st0 st \<longleftrightarrow>
     fresh ms st
     \<and> map args (timeouts (snd st)) = [(v, encode param v)]
     \<and> pendingRef (fst st) = Some \<lparr>pw_decoded = v, prevRaw = getRaw strategy (href (snd st0))\<rparr>
     \<and> lastWrittenRef (fst st) = Some \<lparr>lw_encoded = encode param v, lw_decoded = v\<rparr>
     \<and> href (snd st) = href (snd st0)
     \<and> history_calls (snd st) = history_calls (snd st0)
     \<and> popstates (snd st) = popstates (snd st0)
     \<and> has_window (snd st) = has_window (snd st0)"

text \<open>
  A key of an update that names an inherited member of \<open>params\<close> and no own property.
\<close>

definition inheritedOnly :: "'a Record \<Rightarrow> string \<Rightarrow> bool" where
  "inheritedOnly params k \<longleftrightarrow> rec_get params k = None \<and> k \<in> set objectPrototypeKeys"

section \<open>Base64url: the loops and the round trip\<close>

declare base64Encode_loop.simps [simp del]
declare base64Decode_loop.simps [simp del]

lemma drop_one: "length xs = i + 1 \<Longrightarrow> drop i xs = [xs ! i]"
  by (metis Cons_nth_drop_Suc Suc_eq_plus1 drop_all lessI order_refl)

lemma drop_two: "length xs = i + 2 \<Longrightarrow> drop i xs = [xs ! i, xs ! (i + 1)]"
proof -
  assume l: "length xs = i + 2"
  then have "drop i xs = xs ! i # drop (Suc i) xs"
    by (simp add: Cons_nth_drop_Suc)
  moreover have "drop (Suc i) xs = [xs ! (i + 1)]"
    using drop_one [of xs "Suc i"] l by simp
  ultimately show ?thesis by simp
qed

lemma drop_three: "i + 3 \<le> length xs \<Longrightarrow>
    drop i xs = xs ! i # xs ! (i + 1) # xs ! (i + 2) # drop (i + 3) xs"
proof -
  assume l: "i + 3 \<le> length xs"
  have "drop i xs = xs ! i # drop (Suc i) xs"
    using l by (simp add: Cons_nth_drop_Suc)
  moreover have "drop (Suc i) xs = xs ! (i + 1) # drop (Suc (Suc i)) xs"
    using l by (simp add: Cons_nth_drop_Suc)
  moreover have "drop (Suc (Suc i)) xs = xs ! (i + 2) # drop (i + 3) xs"
    using l Cons_nth_drop_Suc [of "i + 2" xs] by (simp add: numeral_3_eq_3)
  ultimately show ?thesis by simp
qed

lemma drop_four: "i + 4 \<le> length xs \<Longrightarrow>
    drop i xs = xs ! i # xs ! (i + 1) # xs ! (i + 2) # xs ! (i + 3) # drop (i + 4) xs"
proof -
  assume l: "i + 4 \<le> length xs"
  have "drop i xs = xs ! i # xs ! (i + 1) # xs ! (i + 2) # drop (i + 3) xs"
    using l by (simp add: drop_three)
  moreover have "drop (i + 3) xs = xs ! (i + 3) # drop (i + 4) xs"
    using l Cons_nth_drop_Suc [of "i + 3" xs] by (simp add: eval_nat_numeral)
  ultimately show ?thesis by simp
qed

lemma enc_loop_blocks: "base64Encode_loop bytes i r = r @ enc_blocks (drop i bytes)"
proof (induction "length bytes - i" arbitrary: i r rule: less_induct)
  case less
  show ?case
  proof (cases "i < length bytes")
    case False
    then show ?thesis by (subst base64Encode_loop.simps) simp
  next
    case True
    have IH: "\<And>r'. base64Encode_loop bytes (i + 3) r' = r' @ enc_blocks (drop (i + 3) bytes)"
      using less [of "i + 3"] True by simp
    consider (one) "length bytes = i + 1" | (two) "length bytes = i + 2"
      | (more) "i + 3 \<le> length bytes"
      using True by linarith
    then show ?thesis
    proof cases
      case one
      then show ?thesis
        by (subst base64Encode_loop.simps)
           (simp add: IH drop_one Let_def byteAt_def pack3_def sextet_def)
    next
      case two
      then show ?thesis
        by (subst base64Encode_loop.simps)
           (simp add: IH drop_two Let_def byteAt_def pack3_def sextet_def)
    next
      case more
      then show ?thesis
        by (subst base64Encode_loop.simps)
           (simp add: IH drop_three Let_def byteAt_def pack3_def sextet_def)
    qed
  qed
qed

lemma dec_loop_blocks: "base64Decode_loop str i bs = bs @ dec_blocks (drop i str)"
proof (induction "length str - i" arbitrary: i bs rule: less_induct)
  case less
  show ?case
  proof (cases "i < length str")
    case False
    then show ?thesis by (subst base64Decode_loop.simps) simp
  next
    case True
    have IH: "\<And>bs'. base64Decode_loop str (i + 4) bs' = bs' @ dec_blocks (drop (i + 4) str)"
      using less [of "i + 4"] True by simp
    consider (one) "length str = i + 1" | (two) "length str = i + 2"
      | (three) "length str = i + 3" | (more) "i + 4 \<le> length str"
      using True by linarith
    then show ?thesis
    proof cases
      case one
      then show ?thesis
        by (subst base64Decode_loop.simps)
           (simp add: IH drop_one Let_def charAt_def join4_def octet_def lookupOr0_def)
    next
      case two
      then show ?thesis
        by (subst base64Decode_loop.simps)
           (simp add: IH drop_two Let_def charAt_def join4_def octet_def)
    next
      case three
      then have d: "drop i str = [str ! i, str ! (i + 1), str ! (i + 2)]"
        using drop_three [of i str] by simp
      from three show ?thesis
        by (subst base64Decode_loop.simps)
           (simp add: IH d Let_def charAt_def join4_def octet_def)
    next
      case more
      then show ?thesis
        by (subst base64Decode_loop.simps)
           (simp add: IH drop_four Let_def charAt_def join4_def octet_def)
    qed
  qed
qed


lemma m6: "(0x3f :: int32) = mask 6" by (simp add: mask_eq_exp_minus_1)
lemma m8: "(0xff :: int32) = mask 8" by (simp add: mask_eq_exp_minus_1)

lemma idx_shift:
  "2 \<le> n \<Longrightarrow> Suc (Suc (n - 2)) = n"
  "4 \<le> n \<Longrightarrow> Suc (Suc (Suc (Suc (n - 4)))) = n"
  "a \<le> n \<Longrightarrow> a + (n - a) = (n::nat)"
  by arith+

lemma block1: "octet 16 (join4 (sextet 18 (pack3 a 0 0)) (sextet 12 (pack3 a 0 0)) 0 0) = a"
  unfolding pack3_def join4_def sextet_def octet_def m6 m8
  by (rule bit_word_eqI) (auto simp: bit_simps idx_shift dest: bit_imp_le_length)

lemma block2:
  "octet 16 (join4 (sextet 18 (pack3 a b 0)) (sextet 12 (pack3 a b 0)) (sextet 6 (pack3 a b 0)) 0) = a"
  "octet 8 (join4 (sextet 18 (pack3 a b 0)) (sextet 12 (pack3 a b 0)) (sextet 6 (pack3 a b 0)) 0) = b"
  unfolding pack3_def join4_def sextet_def octet_def m6 m8
  by (rule bit_word_eqI; auto simp: bit_simps idx_shift dest: bit_imp_le_length)+

lemma block3:
  "octet 16 (join4 (sextet 18 (pack3 a b c)) (sextet 12 (pack3 a b c)) (sextet 6 (pack3 a b c)) (sextet 0 (pack3 a b c))) = a"
  "octet 8 (join4 (sextet 18 (pack3 a b c)) (sextet 12 (pack3 a b c)) (sextet 6 (pack3 a b c)) (sextet 0 (pack3 a b c))) = b"
  "octet 0 (join4 (sextet 18 (pack3 a b c)) (sextet 12 (pack3 a b c)) (sextet 6 (pack3 a b c)) (sextet 0 (pack3 a b c))) = c"
  unfolding pack3_def join4_def sextet_def octet_def m6 m8
  by (rule bit_word_eqI; auto simp: bit_simps idx_shift dest: bit_imp_le_length)+

lemma sextet_lt: "unat (sextet k n) < 64"
proof -
  have "sextet k n \<le> 0x3f" unfolding sextet_def by (rule word_and_le1)
  then have "unat (sextet k n) \<le> unat (0x3f :: int32)" by (simp add: word_le_nat_alt)
  then show ?thesis by simp
qed

lemma lookup_table: "\<forall>i<64. BASE64_LOOKUP (BASE64_CHARS ! i) = Some i"
  unfolding BASE64_LOOKUP_def BASE64_CHARS_def by code_simp

lemma lookup_charOf: "unat k < 64 \<Longrightarrow> lookupOr0 (Some (charOf k)) = k"
  using lookup_table by (simp add: lookupOr0_def charOf_def)

lemma lookup_sextet [simp]: "lookupOr0 (Some (charOf (sextet k n))) = sextet k n"
  by (rule lookup_charOf) (rule sextet_lt)

lemma dec_enc_blocks: "dec_blocks (enc_blocks bs) = bs"
  by (induction bs rule: enc_blocks.induct) (simp_all add: block1 block2 block3)

lemma length_BASE64_CHARS: "length BASE64_CHARS = 64"
  by (simp add: BASE64_CHARS_def)

lemma charOf_alphabet: "unat k < 64 \<Longrightarrow> charOf k \<in> set BASE64_CHARS"
  by (simp add: charOf_def length_BASE64_CHARS)

lemma enc_blocks_alphabet: "set (enc_blocks bs) \<subseteq> set BASE64_CHARS"
  by (induction bs rule: enc_blocks.induct) (simp_all add: charOf_alphabet sextet_lt)

lemma enc_blocks_length: "length (enc_blocks bs) = (4 * length bs + 2) div 3"
  by (induction bs rule: enc_blocks.induct) simp_all

lemma pad_not_in_alphabet: "CHR ''='' \<notin> set BASE64_CHARS"
  by (simp add: BASE64_CHARS_def)

lemma stripPadding_id: "CHR ''='' \<notin> set s \<Longrightarrow> stripPadding s = s"
proof -
  assume a: "CHR ''='' \<notin> set s"
  have "dropWhile (\<lambda>c. c = CHR ''='') (rev s) = rev s"
  proof (cases "rev s")
    case Nil then show ?thesis by simp
  next
    case (Cons x xs)
    then have "x \<in> set s" by (metis list.set_intros(1) set_rev)
    with a have "x \<noteq> CHR ''=''" by auto
    with Cons show ?thesis by simp
  qed
  then show ?thesis by (simp add: stripPadding_def)
qed

lemma base64Encode_blocks: "base64Encode bs = enc_blocks bs"
  by (simp add: base64Encode_def enc_loop_blocks)

text \<open>
  Claim C8. For every byte array \<open>b\<close>, decoding the encoding of \<open>b\<close> gives back exactly the
  bytes of \<open>b\<close> (same length, same values); the encoding uses only characters of the
  base64url alphabet, so none of \<^verbatim>\<open>+\<close>, \<^verbatim>\<open>/\<close> and the padding character \<^verbatim>\<open>=\<close>; and its length
  is the ceiling of \<open>4 * length b / 3\<close>.
\<close>

theorem base64_roundtrip:
  "base64Decode (base64Encode b) = b
   \<and> length (base64Decode (base64Encode b)) = length b
   \<and> set (base64Encode b) \<subseteq> set BASE64_CHARS
   \<and> CHR ''+'' \<notin> set (base64Encode b)
   \<and> CHR ''/'' \<notin> set (base64Encode b)
   \<and> CHR ''='' \<notin> set (base64Encode b)
   \<and> int (length (base64Encode b)) = \<lceil>4 * real (length b) / 3\<rceil>"
proof -
  have alpha: "set (base64Encode b) \<subseteq> set BASE64_CHARS"
    by (simp add: base64Encode_blocks enc_blocks_alphabet)
  have nopad: "CHR ''='' \<notin> set (base64Encode b)"
    using alpha pad_not_in_alphabet by blast
  have rt: "base64Decode (base64Encode b) = b"
    using nopad
    by (simp add: base64Decode_def stripPadding_id dec_loop_blocks base64Encode_blocks dec_enc_blocks)
  have "CHR ''+'' \<notin> set BASE64_CHARS" "CHR ''/'' \<notin> set BASE64_CHARS"
    by (simp_all add: BASE64_CHARS_def)
  with alpha have np: "CHR ''+'' \<notin> set (base64Encode b)" "CHR ''/'' \<notin> set (base64Encode b)"
    by blast+
  have len: "int (length (base64Encode b)) = \<lceil>4 * real (length b) / 3\<rceil>"
  proof -
    have "\<lceil>4 * real (length b) / 3\<rceil> = \<lceil>real_of_int (4 * int (length b)) / real_of_int 3\<rceil>"
      by simp
    also have "\<dots> = - (- (4 * int (length b)) div 3)"
      by (rule ceiling_divide_eq_div)
    also have "\<dots> = (4 * int (length b) + 2) div 3"
      by presburger
    finally show ?thesis
      by (simp add: base64Encode_blocks enc_blocks_length zdiv_int)
  qed
  show ?thesis using alpha nopad rt np len by simp
qed

theorem base64_roundtrip_witness:
  "base64Encode [1, 2, 3, 4, 255] = ''AQIDBP8''
   \<and> base64Decode ''AQIDBP8'' = [1, 2, 3, 4, 255]
   \<and> set ''AQIDBP8'' \<subseteq> set BASE64_CHARS
   \<and> int (length ''AQIDBP8'') = \<lceil>4 * real (length [1, 2, 3, 4, 255 :: byte]) / 3\<rceil>"
proof -
  have e: "base64Encode [1, 2, 3, 4, 255] = ''AQIDBP8''"
    by code_simp
  show ?thesis
    using base64_roundtrip [of "[1, 2, 3, 4, 255]"] unfolding e by simp
qed

section \<open>binaryParam\<close>

text \<open>
  Claim C9. The \<open>decode\<close> of a \<open>binaryParam\<close> always returns a value and never lets an
  exception out: it returns \<open>null\<close> for \<open>undefined\<close> and for the empty string, and \<open>null\<close>
  whenever the caller's \<open>fromBytes\<close> throws (\<open>base64Decode\<close> itself has no throwing path);
  \<open>encode\<close> returns \<open>undefined\<close> for \<open>null\<close> and for a value whose bytes are empty.
\<close>

theorem binaryParam_total:
  "(\<exists>r. binaryParam_decode options encoded = Inr r)
   \<and> binaryParam_decode options None = Inr None
   \<and> binaryParam_decode options (Some []) = Inr None
   \<and> (\<forall>s ex. fromBytes options (base64Decode s) = Inl ex
         \<longrightarrow> binaryParam_decode options (Some s) = Inr None)
   \<and> binaryParam_encode options None = Inr None
   \<and> (\<forall>x. toBytes options x = Inr [] \<longrightarrow> binaryParam_encode options (Some x) = Inr None)"
proof (intro conjI allI impI)
  show "\<exists>r. binaryParam_decode options encoded = Inr r"
  proof (cases encoded)
    case None
    then show ?thesis by (simp add: binaryParam_decode_def)
  next
    case (Some s)
    show ?thesis
    proof (cases "fromBytes options (base64Decode s)")
      case (Inl ex)
      with Some show ?thesis by (simp add: binaryParam_decode_def)
    next
      case (Inr x)
      with Some show ?thesis by (simp add: binaryParam_decode_def)
    qed
  qed
  show "binaryParam_decode options None = Inr None"
    and "binaryParam_decode options (Some []) = Inr None"
    by (simp_all add: binaryParam_decode_def)
  show "binaryParam_decode options (Some s) = Inr None"
    if "fromBytes options (base64Decode s) = Inl ex" for s ex
    using that by (simp add: binaryParam_decode_def)
  show "binaryParam_encode options None = Inr None"
    by (simp add: binaryParam_encode_def)
  show "binaryParam_encode options (Some x) = Inr None" if "toBytes options x = Inr []" for x
    using that by (simp add: binaryParam_encode_def)
qed

theorem binaryParam_total_witness:
  "fromBytes pairOptions (base64Decode ''AQ'') = Inl (Thrown ''RangeError'')
   \<and> binaryParam_decode pairOptions (Some ''AQ'') = Inr None
   \<and> toBytes pairOptions [] = Inr []
   \<and> binaryParam_encode pairOptions (Some []) = Inr None
   \<and> binaryParam_decode pairOptions (Some ''AQID'') = Inr None
   \<and> binaryParam_decode pairOptions (Some ''AQI'') = Inr (Some [1, 2])"
proof -
  have d1: "base64Decode ''AQ'' = [1]" by code_simp
  have d2: "base64Decode ''AQID'' = [1, 2, 3]" by code_simp
  have d3: "base64Decode ''AQI'' = [1, 2]" by code_simp
  have f: "fromBytes pairOptions (base64Decode ''AQ'') = Inl (Thrown ''RangeError'')"
    by (simp add: d1 pairOptions_def)
  have t: "toBytes pairOptions [] = Inr []"
    by (simp add: pairOptions_def)
  from binaryParam_total [of pairOptions "Some ''AQ''"] f t
  have "binaryParam_decode pairOptions (Some ''AQ'') = Inr None"
    and "binaryParam_encode pairOptions (Some []) = Inr None"
    by blast+
  moreover have "binaryParam_decode pairOptions (Some ''AQID'') = Inr None"
    by (simp add: binaryParam_decode_def d2 pairOptions_def)
  moreover have "binaryParam_decode pairOptions (Some ''AQI'') = Inr (Some [1, 2])"
    by (simp add: binaryParam_decode_def d3 pairOptions_def)
  ultimately show ?thesis using f t by simp
qed
section \<open>Dictionaries\<close>

lemma rec_get_set: "rec_get (rec_set k v r) k' = (if k' = k then Some v else rec_get r k')"
  by (induction r) auto

lemma rec_get_delete: "rec_get (rec_delete k r) k' = (if k' = k then None else rec_get r k')"
  by (induction r) auto

lemma filter_rec_set: "k \<in> K \<Longrightarrow> filter (\<lambda>p. fst p \<notin> K) (rec_set k v r) = filter (\<lambda>p. fst p \<notin> K) r"
  by (induction r) auto

lemma filter_rec_delete: "k \<in> K \<Longrightarrow> filter (\<lambda>p. fst p \<notin> K) (rec_delete k r) = filter (\<lambda>p. fst p \<notin> K) r"
  by (induction r) auto

lemma rec_get_updateParam:
  "rec_get (updateParam k enc r) k' =
     (if k' = k then map_option (\<lambda>s. [s]) enc else rec_get r k')"
  by (cases enc) (simp_all add: updateParam_def rec_get_set rec_get_delete)

lemma filter_updateParam:
  "k \<in> K \<Longrightarrow> filter (\<lambda>p. fst p \<notin> K) (updateParam k enc r) = filter (\<lambda>p. fst p \<notin> K) r"
  by (cases enc) (simp_all add: updateParam_def filter_rec_set filter_rec_delete)

lemma ownValues_updateParam:
  "ownValues (updateParam k enc r) k' = (if k' = k then singleToMulti enc else ownValues r k')"
  by (cases enc) (simp_all add: ownValues_def rec_get_updateParam singleToMulti_def)

lemma rec_get_map_of: "rec_get r k = map_of r k"
  by (induction r) auto

lemma valuesOf_own: "rec_get r k = Some m \<Longrightarrow> valuesOf r k = Listed m"
  by (simp add: valuesOf_def getProperty_def)

lemma valuesOf_absent:
  "rec_get r k = None \<Longrightarrow>
   valuesOf r k = (if k \<in> set objectPrototypeKeys then Member k else Listed [])"
  by (simp add: valuesOf_def getProperty_def)

lemma valuesOf_Listed:
  "valuesOf r k = Listed m \<longleftrightarrow>
     rec_get r k = Some m \<or> (rec_get r k = None \<and> k \<notin> set objectPrototypeKeys \<and> m = [])"
  by (cases "rec_get r k") (auto simp: valuesOf_own valuesOf_absent)

text \<open>
  What the single-value hooks read for a key, in terms of the snapshot alone: the first
  value listed under the key, and nothing when the key is not listed or lists no value.
\<close>

lemma multiToSingle_valuesOf:
  "multiToSingle (valuesOf r k) = (case map_of r k of Some (x # xs) \<Rightarrow> Some x | _ \<Rightarrow> None)"
proof (cases "rec_get r k")
  case None
  then show ?thesis by (simp add: valuesOf_absent rec_get_map_of [symmetric])
next
  case (Some m)
  then show ?thesis
    by (cases m) (simp_all add: valuesOf_own rec_get_map_of [symmetric])
qed

lemma read_updateParam: "multiToSingle (valuesOf (updateParam k enc r) k) = enc"
  by (cases enc) (simp_all add: multiToSingle_valuesOf rec_get_map_of [symmetric] rec_get_updateParam)

lemma rec_set_keys: "set (map fst (rec_set k v r)) = insert k (set (map fst r))"
proof (induction r)
  case Nil
  then show ?case by simp
next
  case (Cons a r)
  obtain k' v' where a: "a = (k', v')" by (cases a)
  show ?case
  proof (cases "k' = k")
    case True
    with a show ?thesis by simp
  next
    case False
    with a Cons show ?thesis by (simp add: insert_commute)
  qed
qed

lemma distinct_rec_set: "distinct (map fst r) \<Longrightarrow> distinct (map fst (rec_set k v r))"
proof (induction r)
  case Nil
  then show ?case by simp
next
  case (Cons a r)
  obtain k' v' where a: "a = (k', v')" by (cases a)
  show ?case
  proof (cases "k' = k")
    case True
    with a Cons.prems show ?thesis by simp
  next
    case False
    with a Cons rec_set_keys [of k v r] show ?thesis by simp
  qed
qed

lemma rec_set_all: "list_all P r \<Longrightarrow> P (k, v) \<Longrightarrow> list_all P (rec_set k v r)"
  by (induction r) auto

lemma rec_delete_keys: "set (map fst (rec_delete k r)) \<subseteq> set (map fst r)"
proof (induction r)
  case Nil
  then show ?case by simp
next
  case (Cons a r)
  obtain k' v' where a: "a = (k', v')" by (cases a)
  with Cons show ?case by (cases "k' = k") auto
qed

lemma distinct_rec_delete: "distinct (map fst r) \<Longrightarrow> distinct (map fst (rec_delete k r))"
proof (induction r)
  case Nil
  then show ?case by simp
next
  case (Cons a r)
  obtain k' v' where a: "a = (k', v')" by (cases a)
  with Cons rec_delete_keys [of k r] show ?case by (cases "k' = k") auto
qed

lemma rec_delete_all: "list_all P r \<Longrightarrow> list_all P (rec_delete k r)"
  by (induction r) auto

lemma rec_get_None_keys: "rec_get r k = None \<longleftrightarrow> k \<notin> set (map fst r)"
proof (induction r)
  case Nil
  then show ?case by simp
next
  case (Cons a r)
  obtain k' v' where a: "a = (k', v')" by (cases a)
  with Cons show ?case by auto
qed

lemma rec_get_applyUpdates_other:
  "k \<notin> fst ` set updates \<Longrightarrow> rec_get (applyUpdates updates r) k = rec_get r k"
  by (induction updates arbitrary: r) (auto simp: rec_get_updateParam)

lemma filter_applyUpdates:
  "fst ` set updates \<subseteq> K \<Longrightarrow>
   filter (\<lambda>p. fst p \<notin> K) (applyUpdates updates r) = filter (\<lambda>p. fst p \<notin> K) r"
  by (induction updates arbitrary: r) (auto simp: filter_updateParam)

lemma rec_get_applyUpdates_last:
  "distinct (map fst updates) \<Longrightarrow> rec_get updates k = Some u \<Longrightarrow>
   rec_get (applyUpdates updates r) k = map_option (\<lambda>s. [s]) (lw_encoded u)"
proof (induction updates arbitrary: r)
  case Nil
  then show ?case by simp
next
  case (Cons a updates)
  obtain k' u' where a: "a = (k', u')" by (cases a)
  show ?case
  proof (cases "k' = k")
    case True
    with Cons.prems a have "u' = u" and "k \<notin> fst ` set updates" by auto
    then show ?thesis
      using a True by (simp add: rec_get_applyUpdates_other rec_get_updateParam)
  next
    case False
    with Cons a show ?thesis by simp
  qed
qed

section \<open>arraysEqual\<close>

lemma arraysEqual_iff: "arraysEqual a b \<longleftrightarrow> a = b"
proof -
  have "arraysEqual a b \<longleftrightarrow> length a = length b \<and> (\<forall>i<length a. a ! i = b ! i)"
    by (auto simp: arraysEqual_def list_all_iff)
  also have "\<dots> \<longleftrightarrow> a = b"
    by (rule list_eq_iff_nth_eq [symmetric])
  finally show ?thesis .
qed

section \<open>getSnapshot\<close>

text \<open>
  Claim C4. \<open>getSnapshot\<close> parses only when the raw string differs from the one cached for
  the strategy (or none is cached): on equal raw it returns the cached object itself, the
  same reference, and leaves the store untouched; otherwise it parses into a new object and
  caches it under this strategy. The entries of other strategies and the objects already
  created are never touched, so a later call with the same raw string returns the same
  reference again.
\<close>

theorem getSnapshot_memo:
  "(\<forall>c. snapshotCache st (sid strategy) = Some c \<and> se_raw c = getRaw strategy location
        \<longrightarrow> getSnapshot strategy location st = (se_snapshot c, st))
   \<and> ((\<forall>c. snapshotCache st (sid strategy) = Some c \<longrightarrow> se_raw c \<noteq> getRaw strategy location)
        \<longrightarrow> fst (getSnapshot strategy location st) = length (objects st)
          \<and> objects (snd (getSnapshot strategy location st))
              = objects st @ [parse strategy location]
          \<and> snapshotCache (snd (getSnapshot strategy location st)) (sid strategy)
              = Some \<lparr>se_raw = getRaw strategy location, se_snapshot = length (objects st)\<rparr>)
   \<and> (\<forall>other. sid other \<noteq> sid strategy
        \<longrightarrow> snapshotCache (snd (getSnapshot strategy location st)) (sid other)
            = snapshotCache st (sid other))
   \<and> (\<forall>r < length (objects st).
         objects (snd (getSnapshot strategy location st)) ! r = objects st ! r)
   \<and> (\<forall>location'. getRaw strategy location' = getRaw strategy location
        \<longrightarrow> getSnapshot strategy location' (snd (getSnapshot strategy location st))
            = (fst (getSnapshot strategy location st), snd (getSnapshot strategy location st)))"
  by (auto simp: getSnapshot_def reparse_def parseFresh_def Let_def nth_append
           split: option.splits)


theorem getSnapshot_memo_witness:
  "fst (getSnapshot queryStrategy ''/?a=1#b=2'' emptyStore) = 0
   \<and> fst (getSnapshot hashStrategy ''/?a=1#b=2''
            (snd (getSnapshot queryStrategy ''/?a=1#b=2'' emptyStore))) = 1
   \<and> getSnapshot queryStrategy ''/?a=1#b=3''
        (snd (getSnapshot hashStrategy ''/?a=1#b=2''
               (snd (getSnapshot queryStrategy ''/?a=1#b=2'' emptyStore))))
      = (0, snd (getSnapshot hashStrategy ''/?a=1#b=2''
                  (snd (getSnapshot queryStrategy ''/?a=1#b=2'' emptyStore))))
   \<and> fst (getSnapshot hashStrategy ''/?a=1#b=3''
            (snd (getSnapshot hashStrategy ''/?a=1#b=2''
                   (snd (getSnapshot queryStrategy ''/?a=1#b=2'' emptyStore))))) = 2"
proof -
  define s1 where "s1 = snd (getSnapshot queryStrategy ''/?a=1#b=2'' emptyStore)"
  define s2 where "s2 = snd (getSnapshot hashStrategy ''/?a=1#b=2'' s1)"
  have ids: "sid hashStrategy \<noteq> sid queryStrategy"
    by (simp add: queryStrategy_def hashStrategy_def)
  have q: "getRaw queryStrategy ''/?a=1#b=3'' = getRaw queryStrategy ''/?a=1#b=2''"
    by (simp add: queryStrategy_def afterChar_def beforeChar_def)
  have h: "getRaw hashStrategy ''/?a=1#b=3'' \<noteq> getRaw hashStrategy ''/?a=1#b=2''"
    by (simp add: hashStrategy_def afterChar_def beforeChar_def)
  have e: "\<forall>c. snapshotCache emptyStore (sid queryStrategy) = Some c
             \<longrightarrow> se_raw c \<noteq> getRaw queryStrategy ''/?a=1#b=2''"
    "objects emptyStore = []" "snapshotCache emptyStore (sid hashStrategy) = None"
    by (simp_all add: emptyStore_def)
  note T1 = getSnapshot_memo [of emptyStore queryStrategy "''/?a=1#b=2''"]
  from T1 e(1) have a1: "fst (getSnapshot queryStrategy ''/?a=1#b=2'' emptyStore)
                           = length (objects emptyStore)"
    and o1: "objects s1 = objects emptyStore @ [parse queryStrategy ''/?a=1#b=2'']"
    and k1: "snapshotCache s1 (sid queryStrategy)
               = Some \<lparr>se_raw = getRaw queryStrategy ''/?a=1#b=2'',
                        se_snapshot = length (objects emptyStore)\<rparr>"
    unfolding s1_def by blast+
  from T1 ids have "snapshotCache s1 (sid hashStrategy) = snapshotCache emptyStore (sid hashStrategy)"
    unfolding s1_def by blast
  with e(3) have n1: "\<forall>c. snapshotCache s1 (sid hashStrategy) = Some c
                        \<longrightarrow> se_raw c \<noteq> getRaw hashStrategy ''/?a=1#b=2''"
    by simp
  note T2 = getSnapshot_memo [of s1 hashStrategy "''/?a=1#b=2''"]
  from T2 n1 have a2: "fst (getSnapshot hashStrategy ''/?a=1#b=2'' s1) = length (objects s1)"
    and o2: "objects s2 = objects s1 @ [parse hashStrategy ''/?a=1#b=2'']"
    and k2: "snapshotCache s2 (sid hashStrategy)
               = Some \<lparr>se_raw = getRaw hashStrategy ''/?a=1#b=2'',
                        se_snapshot = length (objects s1)\<rparr>"
    unfolding s2_def by blast+
  from T2 ids have "snapshotCache s2 (sid queryStrategy) = snapshotCache s1 (sid queryStrategy)"
    unfolding s2_def by metis
  with k1 q have hit: "snapshotCache s2 (sid queryStrategy)
                         = Some \<lparr>se_raw = getRaw queryStrategy ''/?a=1#b=2'', se_snapshot = 0\<rparr>
                       \<and> se_raw \<lparr>se_raw = getRaw queryStrategy ''/?a=1#b=2'', se_snapshot = 0\<rparr>
                           = getRaw queryStrategy ''/?a=1#b=3''"
    by (simp add: e(2))
  note T3 = getSnapshot_memo [of s2 queryStrategy "''/?a=1#b=3''"]
  from T3 hit have r3: "getSnapshot queryStrategy ''/?a=1#b=3'' s2
                          = (se_snapshot \<lparr>se_raw = getRaw queryStrategy ''/?a=1#b=2'',
                                           se_snapshot = 0\<rparr>, s2)"
    by blast
  from k2 h have n4: "\<forall>c. snapshotCache s2 (sid hashStrategy) = Some c
                        \<longrightarrow> se_raw c \<noteq> getRaw hashStrategy ''/?a=1#b=3''"
    by auto
  note T4 = getSnapshot_memo [of s2 hashStrategy "''/?a=1#b=3''"]
  from T4 n4 have r4: "fst (getSnapshot hashStrategy ''/?a=1#b=3'' s2) = length (objects s2)"
    by blast
  show ?thesis
    using a1 a2 r3 r4 o1 o2 e(2) unfolding s2_def s1_def by simp
qed
section \<open>The modelled location strategies hold the state they are built from\<close>


lemma unescape_plain: "c \<noteq> CHR ''%'' \<Longrightarrow> unescape (c # s) = c # unescape s"
  by (cases s rule: unescape.cases) simp_all

lemma unescape_escape: "unescape (escape s) = s"
  by (induction s) (simp_all add: unescape_plain)

lemma escape_clean:
  "CHR ''&'' \<notin> set (escape s) \<and> CHR ''='' \<notin> set (escape s) \<and> CHR ''#'' \<notin> set (escape s)"
  by (induction s) simp_all

lemma escape_Nil: "escape s = [] \<longleftrightarrow> s = []"
  by (cases s) simp_all

lemma splitOn_nonempty: "splitOn c s \<noteq> []"
  by (induction s) (simp_all split: list.splits)

lemma splitOn_no_sep: "c \<notin> set s \<Longrightarrow> splitOn c s = [s]"
  by (induction s) auto

lemma splitOn_append: "c \<notin> set p \<Longrightarrow> splitOn c (p @ c # r) = p # splitOn c r"
  by (induction p) auto

lemma splitOn_joinWith:
  "ps \<noteq> [] \<Longrightarrow> \<forall>p\<in>set ps. c \<notin> set p \<Longrightarrow> splitOn c (joinWith c ps) = ps"
proof (induction c ps rule: joinWith.induct)
  case (1 c) then show ?case by simp
next
  case (2 c s) then show ?case by (simp add: splitOn_no_sep)
next
  case (3 c s t ss)
  then show ?case by (simp add: splitOn_append)
qed

lemma joinWith_Nil: "joinWith c ps = [] \<Longrightarrow> \<forall>p\<in>set ps. p \<noteq> [] \<Longrightarrow> ps = []"
  by (induction c ps rule: joinWith.induct) simp_all

lemma serializePair_props:
  "serializePair k v \<noteq> []" "CHR ''&'' \<notin> set (serializePair k v)"
  "CHR ''#'' \<notin> set (serializePair k v)"
  by (simp_all add: serializePair_def escape_Nil escape_clean)

lemma parsePair_serializePair: "parsePair (serializePair k v) = (k, v)"
proof -
  have n: "\<forall>x\<in>set (escape k). x \<noteq> CHR ''=''"
    using escape_clean [of k] by blast
  have t: "takeWhile (\<lambda>c. c \<noteq> CHR ''='') (escape k @ CHR ''='' # r) = escape k" for r
    using n by (simp add: takeWhile_append)
  have d: "dropWhile (\<lambda>c. c \<noteq> CHR ''='') (escape k @ CHR ''='' # r) = CHR ''='' # r" for r
    using n by (simp add: dropWhile_append)
  have t0: "takeWhile (\<lambda>c. c \<noteq> CHR ''='') (escape k) = escape k"
    using n by simp
  have d0: "dropWhile (\<lambda>c. c \<noteq> CHR ''='') (escape k) = []"
    using n by simp
  show ?thesis
    by (simp add: parsePair_def serializePair_def t d t0 d0 unescape_escape)
qed


lemma rec_get_notin: "k \<notin> set (map fst r) \<Longrightarrow> rec_get r k = None"
  by (induction r) auto

lemma rec_set_notin: "k \<notin> set (map fst r) \<Longrightarrow> rec_set k v r = r @ [(k, v)]"
  by (induction r) auto

lemma rec_set_last: "k \<notin> set (map fst r) \<Longrightarrow> rec_set k v (r @ [(k, u)]) = r @ [(k, v)]"
  by (induction r) auto

lemma rec_get_last: "k \<notin> set (map fst r) \<Longrightarrow> rec_get (r @ [(k, u)]) k = Some u"
  by (induction r) auto

lemma collect_Cons:
  "collect ((k, v) # pairs) acc = collect pairs (rec_set k (ownValues acc k @ [v]) acc)"
  by (simp add: collect_def)

lemma collect_Nil: "collect [] acc = acc"
  by (simp add: collect_def)

lemma collect_append: "collect (ps @ qs) acc = collect qs (collect ps acc)"
  by (simp add: collect_def)

lemma collect_more:
  "k \<notin> set (map fst acc) \<Longrightarrow>
   collect (map (Pair k) vs) (acc @ [(k, us)]) = acc @ [(k, us @ vs)]"
proof (induction vs arbitrary: us)
  case Nil
  then show ?case by (simp add: collect_Nil)
next
  case (Cons v vs)
  have "collect (map (Pair k) (v # vs)) (acc @ [(k, us)])
          = collect (map (Pair k) vs) (acc @ [(k, us @ [v])])"
    using Cons.prems by (simp add: collect_Cons ownValues_def rec_get_last rec_set_last)
  also have "\<dots> = acc @ [(k, (us @ [v]) @ vs)]"
    using Cons.prems by (rule Cons.IH)
  finally show ?case by simp
qed

lemma collect_key:
  assumes "k \<notin> set (map fst acc)" and "vs \<noteq> []"
  shows "collect (map (Pair k) vs) acc = acc @ [(k, vs)]"
proof (cases vs)
  case Nil
  with assms show ?thesis by simp
next
  case (Cons v ws)
  have "collect (map (Pair k) (v # ws)) acc = collect (map (Pair k) ws) (acc @ [(k, [v])])"
    using assms(1) by (simp add: collect_Cons ownValues_def rec_get_notin rec_set_notin)
  also have "\<dots> = acc @ [(k, [v] @ ws)]"
    using assms(1) by (rule collect_more)
  finally show ?thesis using Cons by simp
qed

lemma collect_pairsOf:
  "distinct (map fst (acc @ params)) \<Longrightarrow> list_all (\<lambda>p. snd p \<noteq> []) params \<Longrightarrow>
   collect (pairsOf params) acc = acc @ params"
proof (induction params arbitrary: acc)
  case Nil
  then show ?case by (simp add: pairsOf_def collect_Nil)
next
  case (Cons p params)
  obtain k vs where p: "p = (k, vs)" by (cases p)
  from Cons.prems p have k: "k \<notin> set (map fst acc)" and vs: "vs \<noteq> []"
    by auto
  have "collect (pairsOf (p # params)) acc
          = collect (pairsOf params) (collect (map (Pair k) vs) acc)"
    by (simp add: pairsOf_def p collect_append)
  also have "\<dots> = collect (pairsOf params) (acc @ [(k, vs)])"
    using k vs by (simp add: collect_key)
  also have "\<dots> = (acc @ [(k, vs)]) @ params"
    using Cons.prems p by (intro Cons.IH) auto
  finally show ?case by (simp add: p)
qed

lemma serialize_pieces:
  "concat (map (\<lambda>(k, vs). map (serializePair k) vs) params)
     = map (\<lambda>(k, v). serializePair k v) (pairsOf params)"
  by (induction params) (auto simp: pairsOf_def)

lemma pairsOf_Nil: "list_all (\<lambda>p. snd p \<noteq> []) params \<Longrightarrow> pairsOf params = [] \<Longrightarrow> params = []"
  by (cases params) (auto simp: pairsOf_def)

lemma pieces_of_serialize:
  assumes "list_all (\<lambda>p. snd p \<noteq> []) params"
  shows "filter (\<lambda>s. s \<noteq> []) (splitOn (CHR ''&'') (serializeMultiParams params))
           = map (\<lambda>(k, v). serializePair k v) (pairsOf params)"
proof (cases "pairsOf params = []")
  case True
  then show ?thesis by (simp add: serializeMultiParams_def serialize_pieces)
next
  case False
  let ?ps = "map (\<lambda>(k, v). serializePair k v) (pairsOf params)"
  have ne: "?ps \<noteq> []" using False by simp
  have clean: "\<forall>p\<in>set ?ps. CHR ''&'' \<notin> set p"
    by (auto simp: serializePair_props)
  have "splitOn (CHR ''&'') (joinWith (CHR ''&'') ?ps) = ?ps"
    using ne clean by (rule splitOn_joinWith)
  moreover have "filter (\<lambda>s. s \<noteq> []) ?ps = ?ps"
    by (auto simp: serializePair_props filter_id_conv)
  ultimately show ?thesis by (simp add: serializeMultiParams_def serialize_pieces)
qed

lemma parse_serialize:
  assumes "wellFormed params"
  shows "parseMultiParams (serializeMultiParams params) = params"
proof -
  from assms have d: "distinct (map fst ([] @ params))" and n: "list_all (\<lambda>p. snd p \<noteq> []) params"
    by (simp_all add: wellFormed_def)
  have "map parsePair (map (\<lambda>(k, v). serializePair k v) (pairsOf params)) = pairsOf params"
    by (simp add: map_idI case_prod_beta parsePair_serializePair)
  then have "parseMultiParams (serializeMultiParams params) = collect (pairsOf params) []"
    by (simp add: parseMultiParams_def pieces_of_serialize [OF n])
  also have "\<dots> = [] @ params" using d n by (rule collect_pairsOf)
  finally show ?thesis by simp
qed

lemma serialize_no_hash: "CHR ''#'' \<notin> set (serializeMultiParams params)"
proof -
  have "CHR ''#'' \<notin> set (joinWith (CHR ''&'') ps)" if "\<forall>p\<in>set ps. CHR ''#'' \<notin> set p" for ps
    using that by (induction "CHR ''&''" ps rule: joinWith.induct) simp_all
  then show ?thesis
    by (auto simp: serializeMultiParams_def serialize_pieces serializePair_props)
qed

lemma serialize_Nil:
  "wellFormed params \<Longrightarrow> serializeMultiParams params = [] \<Longrightarrow> params = []"
proof -
  assume w: "wellFormed params" and s: "serializeMultiParams params = []"
  have "map (\<lambda>(k, v). serializePair k v) (pairsOf params) = []"
    using s by (intro joinWith_Nil [of "CHR ''&''"])
               (auto simp: serializeMultiParams_def serialize_pieces serializePair_props)
  then have "pairsOf params = []" by simp
  with w show ?thesis by (simp add: wellFormed_def pairsOf_Nil)
qed

lemma wellFormed_rec_set: "wellFormed r \<Longrightarrow> vs \<noteq> [] \<Longrightarrow> wellFormed (rec_set k vs r)"
  by (simp add: wellFormed_def distinct_rec_set rec_set_all)

lemma wellFormed_rec_delete: "wellFormed r \<Longrightarrow> wellFormed (rec_delete k r)"
  by (simp add: wellFormed_def distinct_rec_delete rec_delete_all)

lemma wellFormed_collect: "wellFormed acc \<Longrightarrow> wellFormed (collect pairs acc)"
proof (induction pairs arbitrary: acc)
  case Nil
  then show ?case by (simp add: collect_Nil)
next
  case (Cons p pairs)
  obtain k v where p: "p = (k, v)" by (cases p)
  show ?case
    unfolding p collect_Cons using Cons.prems by (intro Cons.IH wellFormed_rec_set) simp_all
qed

lemma wellFormed_parse: "wellFormed (parseMultiParams source)"
proof -
  have "wellFormed []" by (simp add: wellFormed_def)
  then show ?thesis unfolding parseMultiParams_def by (rule wellFormed_collect)
qed

lemma wellFormed_updateParam: "wellFormed r \<Longrightarrow> wellFormed (updateParam k enc r)"
  by (cases enc) (simp_all add: updateParam_def wellFormed_rec_set wellFormed_rec_delete)

lemma takeWhile_path:
  "takeWhile (\<lambda>x. x \<noteq> c) (takeWhile (\<lambda>x. x \<noteq> c) s @ c # r) = takeWhile (\<lambda>x. x \<noteq> c) s"
  "dropWhile (\<lambda>x. x \<noteq> c) (takeWhile (\<lambda>x. x \<noteq> c) s @ c # r) = c # r"
  by (induction s) auto

lemma no_sep_takeWhile: "c \<notin> set s \<Longrightarrow> takeWhile (\<lambda>x. x \<noteq> c) s = s"
  by (induction s) auto

lemma no_sep_dropWhile: "c \<notin> set s \<Longrightarrow> dropWhile (\<lambda>x. x \<noteq> c) s = []"
  by (induction s) auto

lemma before_clean: "c \<notin> set (takeWhile (\<lambda>x. x \<noteq> c) s)"
  by (induction s) auto

lemma hash_roundtrip:
  assumes "wellFormed params"
  shows "parse hashStrategy (buildUrl hashStrategy base params) = params"
proof (cases "serializeMultiParams params = []")
  case True
  with assms have "params = []" by (simp add: serialize_Nil)
  moreover have "afterChar (CHR ''#'') (beforeChar (CHR ''#'') base) = []"
    by (simp add: afterChar_def beforeChar_def no_sep_dropWhile before_clean)
  ultimately show ?thesis
    using True
    by (simp add: hashStrategy_def parseMultiParams_def collect_Nil)
next
  case False
  then show ?thesis
    using parse_serialize [OF assms]
    by (simp add: hashStrategy_def afterChar_def beforeChar_def takeWhile_path)
qed

lemma takeWhile_sep: "c \<notin> set p \<Longrightarrow> takeWhile (\<lambda>x. x \<noteq> c) (p @ c # r) = p"
  by (induction p) auto

lemma dropWhile_sep: "c \<notin> set p \<Longrightarrow> dropWhile (\<lambda>x. x \<noteq> c) (p @ c # r) = c # r"
  by (induction p) auto

lemma path_clean:
  "CHR ''?'' \<notin> set (beforeChar (CHR ''?'') (beforeChar (CHR ''#'') base))"
  "CHR ''#'' \<notin> set (beforeChar (CHR ''?'') (beforeChar (CHR ''#'') base))"
proof -
  show "CHR ''?'' \<notin> set (beforeChar (CHR ''?'') (beforeChar (CHR ''#'') base))"
    by (simp add: beforeChar_def before_clean)
  have "x \<in> set (beforeChar (CHR ''#'') base)"
    if "x \<in> set (beforeChar (CHR ''?'') (beforeChar (CHR ''#'') base))" for x
    using that unfolding beforeChar_def by (rule set_takeWhileD [THEN conjunct1])
  then show "CHR ''#'' \<notin> set (beforeChar (CHR ''?'') (beforeChar (CHR ''#'') base))"
    using before_clean [of "CHR ''#''" base] by (auto simp: beforeChar_def)
qed

lemma takeWhile_opt:
  "c \<notin> set p \<Longrightarrow> takeWhile (\<lambda>x. x \<noteq> c) (p @ (if h = [] then [] else c # h)) = p"
  by (simp add: takeWhile_sep no_sep_takeWhile)

lemma dropWhile_opt:
  "c \<notin> set p \<Longrightarrow>
   drop 1 (dropWhile (\<lambda>x. x \<noteq> c) (p @ (if q = [] then [] else c # q))) = q"
  by (simp add: dropWhile_sep no_sep_dropWhile)

lemma query_raw:
  assumes "CHR ''#'' \<notin> set q"
  shows "afterChar (CHR ''?'') (beforeChar (CHR ''#'')
     (beforeChar (CHR ''?'') (beforeChar (CHR ''#'') base)
      @ (if q = [] then [] else CHR ''?'' # q)
      @ (if h = [] then [] else CHR ''#'' # h))) = q"
proof -
  define path where "path = beforeChar (CHR ''?'') (beforeChar (CHR ''#'') base)"
  define pq where "pq = path @ (if q = [] then [] else CHR ''?'' # q)"
  have p: "CHR ''?'' \<notin> set path" "CHR ''#'' \<notin> set path"
    by (simp_all add: path_def path_clean)
  have c: "CHR ''#'' \<notin> set pq" using assms p(2) by (simp add: pq_def)
  have "beforeChar (CHR ''#'') (pq @ (if h = [] then [] else CHR ''#'' # h)) = pq"
    unfolding beforeChar_def using c by (rule takeWhile_opt)
  moreover have "afterChar (CHR ''?'') pq = q"
    unfolding afterChar_def pq_def using p(1) by (rule dropWhile_opt)
  ultimately show ?thesis by (simp add: pq_def path_def)
qed

lemma query_roundtrip:
  assumes "wellFormed params"
  shows "parse queryStrategy (buildUrl queryStrategy base params) = params"
  using parse_serialize [OF assms]
  by (simp add: queryStrategy_def query_raw [OF serialize_no_hash])

lemma wellFormed_applyUpdates: "wellFormed r \<Longrightarrow> wellFormed (applyUpdates updates r)"
  by (induction updates arbitrary: r) (auto simp: wellFormed_updateParam)

section \<open>useUrlState: render, timers, invariants\<close>

lemma timerInv_iff:
  "timerInv st \<longleftrightarrow>
     (timeouts (snd st) = []
        \<and> (debouncedWriteRef (fst st) = None \<or> debouncedWriteRef (fst st) = Some None))
     \<or> (\<exists>i. debouncedWriteRef (fst st) = Some (Some i) \<and> i \<noteq> 0
              \<and> map timer_id (timeouts (snd st)) = [i])"
  by (auto simp: timerInv_def split: option.splits)

lemma decodeFromUrl_value:
  "cacheSound param h \<Longrightarrow> fst (decodeFromUrl param encoded h) = decode param encoded"
  by (auto simp: decodeFromUrl_def cacheSound_def Let_def split: option.splits)

lemma decodeFromUrl_refs:
  "lastWrittenRef (snd (decodeFromUrl param encoded h)) = None"
  "pendingRef (snd (decodeFromUrl param encoded h)) = pendingRef h"
  "debouncedWriteRef (snd (decodeFromUrl param encoded h)) = debouncedWriteRef h"
  by (simp_all add: decodeFromUrl_def Let_def)

lemma decodeFromUrl_cacheSound:
  "cacheSound param h \<Longrightarrow> cacheSound param (snd (decodeFromUrl param encoded h))"
  by (auto simp: decodeFromUrl_def cacheSound_def Let_def split: option.splits)

lemma cancelRef_refs:
  "lastWrittenRef (fst (cancelRef (h, e))) = lastWrittenRef h"
  "pendingRef (fst (cancelRef (h, e))) = pendingRef h"
  "cacheRef (fst (cancelRef (h, e))) = cacheRef h"
  by (simp_all add: cancelRef_def cancel_def split: option.splits prod.splits)

lemma cancelRef_env:
  "has_window (snd (cancelRef (h, e))) = has_window e"
  "href (snd (cancelRef (h, e))) = href e"
  "history_calls (snd (cancelRef (h, e))) = history_calls e"
  "popstates (snd (cancelRef (h, e))) = popstates e"
  "clock (snd (cancelRef (h, e))) = clock e"
  by (simp_all add: cancelRef_def cancel_def clearTimeout_def split: option.splits prod.splits)

lemma cancelRef_timers:
  "timerInv (h, e) \<Longrightarrow> timeouts (snd (cancelRef (h, e))) = []"
  "timerInv (h, e) \<Longrightarrow> debouncedWriteRef (fst (cancelRef (h, e))) = map_option (\<lambda>_. None) (debouncedWriteRef h)"
  by (auto simp: cancelRef_def cancel_def clearTimeout_def timerInv_iff truthy_def idOf_def
           split: option.splits prod.splits)

lemma cacheSound_cong:
  "cacheRef h' = cacheRef h \<Longrightarrow> cacheSound param h' = cacheSound param h"
  by (simp add: cacheSound_def)

lemma render_value:
  assumes "cacheSound param h"
  shows "fst (useUrlState_render key param urlParams raw (h, e)) =
     (case pendingRef h of
        Some p \<Rightarrow> if raw = prevRaw p then pw_decoded p
                  else decode param (multiToSingle (valuesOf urlParams key))
      | None \<Rightarrow>
          (case lastWrittenRef h of
             Some w \<Rightarrow> if lw_encoded w = multiToSingle (valuesOf urlParams key) then lw_decoded w
                       else decode param (multiToSingle (valuesOf urlParams key))
           | None \<Rightarrow> decode param (multiToSingle (valuesOf urlParams key))))"
proof -
  have a: "\<And>enc. fst (decodeFromUrl param enc h) = decode param enc"
    using assms by (rule decodeFromUrl_value)
  have "cacheSound param (fst (cancelRef (h\<lparr>pendingRef := None\<rparr>, e)))"
    using assms by (simp add: cacheSound_def cancelRef_refs)
  then have b: "\<And>enc. fst (decodeFromUrl param enc (fst (cancelRef (h\<lparr>pendingRef := None\<rparr>, e))))
                  = decode param enc"
    by (rule decodeFromUrl_value)
  show ?thesis
    by (simp add: useUrlState_render_def Let_def case_prod_beta a b split: option.splits)
qed


lemma render_live:
  "pendingRef h = Some p \<Longrightarrow> raw = prevRaw p \<Longrightarrow>
   useUrlState_render key param urlParams raw (h, e) = (pw_decoded p, (h, e))"
  by (simp add: useUrlState_render_def)

lemma render_stale:
  "pendingRef h = Some p \<Longrightarrow> raw \<noteq> prevRaw p \<Longrightarrow>
   snd (useUrlState_render key param urlParams raw (h, e)) =
     (snd (decodeFromUrl param (multiToSingle (valuesOf urlParams key))
             (fst (cancelRef (h\<lparr>pendingRef := None\<rparr>, e)))),
      snd (cancelRef (h\<lparr>pendingRef := None\<rparr>, e)))"
  by (simp add: useUrlState_render_def Let_def case_prod_beta)

lemma render_hit:
  "pendingRef h = None \<Longrightarrow> lastWrittenRef h = Some w \<Longrightarrow>
   lw_encoded w = multiToSingle (valuesOf urlParams key) \<Longrightarrow>
   useUrlState_render key param urlParams raw (h, e) = (lw_decoded w, (h, e))"
  by (simp add: useUrlState_render_def)

lemma render_miss:
  "pendingRef h = None \<Longrightarrow>
   \<forall>w. lastWrittenRef h = Some w \<longrightarrow> lw_encoded w \<noteq> multiToSingle (valuesOf urlParams key) \<Longrightarrow>
   snd (useUrlState_render key param urlParams raw (h, e)) =
     (snd (decodeFromUrl param (multiToSingle (valuesOf urlParams key)) h), e)"
  by (simp add: useUrlState_render_def Let_def case_prod_beta split: option.splits)

lemma timerInv_cases:
  assumes "timerInv (h, e)"
  obtains (idle) "timeouts e = []" "debouncedWriteRef h = None \<or> debouncedWriteRef h = Some None"
  | (armed) t where "timeouts e = [t]" "debouncedWriteRef h = Some (Some (timer_id t))"
      "timer_id t \<noteq> 0"
proof (cases "debouncedWriteRef h")
  case None
  with assms idle show ?thesis by (simp add: timerInv_def)
next
  case (Some a)
  show ?thesis
  proof (cases a)
    case None
    with Some assms idle show ?thesis by (simp add: timerInv_iff)
  next
    case (Some i)
    with \<open>debouncedWriteRef h = Some a\<close> assms
    have i: "i \<noteq> 0" and m: "map timer_id (timeouts e) = [i]"
      by (simp_all add: timerInv_iff)
    from m obtain t where "timeouts e = [t]" "timer_id t = i"
      by (cases "timeouts e") auto
    with i Some \<open>debouncedWriteRef h = Some a\<close> armed show ?thesis by simp
  qed
qed

lemma elapse_idle:
  "timeouts e = [] \<Longrightarrow> elapse callback d (h, e) = (h, e\<lparr>clock := clock e + d\<rparr>)"
  by (simp add: elapse_def dueNow_def)

lemma elapse_not_due:
  "timeouts e = [t] \<Longrightarrow> clock e + d < due t \<Longrightarrow>
   elapse callback d (h, e) = (h, e\<lparr>clock := clock e + d\<rparr>)"
  by (simp add: elapse_def dueNow_def)

lemma elapse_due:
  "timeouts e = [t] \<Longrightarrow> due t \<le> clock e + d \<Longrightarrow>
   elapse callback d (h, e) = callback t (h, e\<lparr>clock := clock e + d, timeouts := []\<rparr>)"
  by (simp add: elapse_def dueNow_def isLive_def clearTimeout_def)

lemma debounced_armed:
  assumes "timerInv (h, e)" "debouncedWriteRef h = Some t"
  shows "debounced ms a t e =
           (Some (Suc (last_timer e)),
            e\<lparr>last_timer := Suc (last_timer e),
              timeouts := [\<lparr>timer_id = Suc (last_timer e), due = clock e + ms, args = a\<rparr>]\<rparr>)"
  using assms(1)
proof (cases rule: timerInv_cases)
  case idle
  with assms(2) have "t = None" by auto
  with idle show ?thesis
    by (simp add: debounced_def truthy_def setTimeout_def Let_def)
next
  case (armed x)
  with assms(2) have "t = Some (timer_id x)" by simp
  with armed show ?thesis
    by (simp add: debounced_def truthy_def idOf_def setTimeout_def clearTimeout_def Let_def)
qed

lemma writeToUrl_timeouts:
  "timeouts (useUrlState_writeToUrl strategy key push v enc e) = timeouts e"
  "clock (useUrlState_writeToUrl strategy key push v enc e) = clock e"
  "has_window (useUrlState_writeToUrl strategy key push v enc e) = has_window e"
  by (simp_all add: useUrlState_writeToUrl_def historyWrite_def Let_def)

lemma setValue_debounced:
  assumes "timerInv (h, e)" "debouncedWriteRef h = Some t"
  shows "useUrlState_setValue strategy key push ms param v (h, e) =
     (h\<lparr>lastWrittenRef := Some \<lparr>lw_encoded = encode param v, lw_decoded = v\<rparr>,
        pendingRef := Some \<lparr>pw_decoded = v, prevRaw = getRaw strategy (href e)\<rparr>,
        debouncedWriteRef := Some (Some (Suc (last_timer e)))\<rparr>,
      e\<lparr>last_timer := Suc (last_timer e),
        timeouts := [\<lparr>timer_id = Suc (last_timer e), due = clock e + ms,
                      args = (v, encode param v)\<rparr>]\<rparr>)"
  using debounced_armed [OF assms, of ms "(v, encode param v)"] assms(2)
  by (simp add: useUrlState_setValue_def Let_def)

lemma setValue_direct:
  "debouncedWriteRef h = None \<Longrightarrow>
   useUrlState_setValue strategy key push ms param v (h, e) =
     (h\<lparr>lastWrittenRef := Some \<lparr>lw_encoded = encode param v, lw_decoded = v\<rparr>\<rparr>,
      useUrlState_writeToUrl strategy key push v (encode param v) e)"
  by (simp add: useUrlState_setValue_def Let_def)

lemma timerInv_setValue:
  "timerInv st \<Longrightarrow> timerInv (useUrlState_setValue strategy key push ms param v st)"
proof -
  assume a: "timerInv st"
  obtain h e where st: "st = (h, e)" by (cases st)
  show ?thesis
  proof (cases "debouncedWriteRef h")
    case None
    with a st show ?thesis
      by (simp add: setValue_direct timerInv_iff writeToUrl_timeouts)
  next
    case (Some t)
    with a st show ?thesis
      by (simp add: setValue_debounced timerInv_iff)
  qed
qed

lemma timerInv_render:
  "timerInv st \<Longrightarrow> timerInv (snd (useUrlState_render key param urlParams raw st))"
proof -
  assume a: "timerInv st"
  obtain h e where st: "st = (h, e)" by (cases st)
  have c: "timerInv (h\<lparr>pendingRef := None\<rparr>, e)"
    using a st by (simp add: timerInv_iff)
  have "timerInv (cancelRef (h\<lparr>pendingRef := None\<rparr>, e))"
    using cancelRef_timers [OF c] by (cases "debouncedWriteRef h") (simp_all add: timerInv_iff)
  then have d: "\<And>enc. timerInv (snd (decodeFromUrl param enc (fst (cancelRef (h\<lparr>pendingRef := None\<rparr>, e)))),
                     snd (cancelRef (h\<lparr>pendingRef := None\<rparr>, e)))"
    by (simp add: timerInv_iff decodeFromUrl_refs)
  have m: "\<And>enc. timerInv (snd (decodeFromUrl param enc h), e)"
    using a st by (simp add: timerInv_iff decodeFromUrl_refs)
  show ?thesis
    using a d m unfolding st
    by (simp add: useUrlState_render_def Let_def case_prod_beta split: option.splits)
qed

lemma timeout_timerInv:
  "timeouts e = [] \<Longrightarrow> timerInv (useUrlState_timeout strategy key push t (h, e))"
  by (cases "debouncedWriteRef h")
     (simp_all add: useUrlState_timeout_def Let_def timerInv_iff writeToUrl_timeouts)

lemma timerInv_elapse:
  "timerInv st \<Longrightarrow> timerInv (elapse (useUrlState_timeout strategy key push) d st)"
proof -
  assume a: "timerInv st"
  obtain h e where st: "st = (h, e)" by (cases st)
  from a [unfolded st] show ?thesis
  proof (cases rule: timerInv_cases)
    case idle
    then show ?thesis using a st by (simp add: elapse_idle timerInv_iff)
  next
    case (armed t)
    show ?thesis
    proof (cases "due t \<le> clock e + d")
      case True
      with armed show ?thesis
        unfolding st by (simp add: elapse_due timeout_timerInv)
    next
      case False
      with armed a show ?thesis
        unfolding st by (simp add: elapse_not_due timerInv_iff)
    qed
  qed
qed


text \<open>
  Both invariants hold when the hook is mounted and are kept by every operation, also when
  the codec object changes between renders, as long as equal identity means equal codec.
\<close>

lemma invariants_mount:
  "cacheSound param (useUrlState_mount debounceMs)"
  "timeouts e = [] \<Longrightarrow> timerInv (useUrlState_mount debounceMs, e)"
  by (simp_all add: cacheSound_def timerInv_iff useUrlState_mount_def installDebounce_def)

lemma decodeFromUrl_cacheSound_other:
  assumes "cacheSound p h" and "pid q = pid p \<longrightarrow> decode q = decode p"
  shows "cacheSound p (snd (decodeFromUrl q encoded h))"
  using assms by (auto simp: decodeFromUrl_def cacheSound_def Let_def split: option.splits)

lemma cacheSound_render:
  assumes "cacheSound p h" and "pid q = pid p \<longrightarrow> decode q = decode p"
  shows "cacheSound p (fst (snd (useUrlState_render key q urlParams raw (h, e))))"
proof -
  have c: "cacheSound p (fst (cancelRef (h\<lparr>pendingRef := None\<rparr>, e)))"
    using assms(1) by (simp add: cacheSound_def cancelRef_refs)
  show ?thesis
    using assms(1) decodeFromUrl_cacheSound_other [OF c assms(2)]
      decodeFromUrl_cacheSound_other [OF assms]
    by (simp add: useUrlState_render_def Let_def case_prod_beta split: option.splits)
qed

lemma cacheSound_setValue:
  "cacheSound p h \<Longrightarrow>
   cacheSound p (fst (useUrlState_setValue strategy key push ms q v (h, e)))"
  by (simp add: useUrlState_setValue_def cacheSound_def Let_def case_prod_beta
           split: option.splits)

lemma cacheSound_timeout:
  "cacheSound p h \<Longrightarrow> cacheSound p (fst (useUrlState_timeout strategy key push t (h, e)))"
  by (simp add: useUrlState_timeout_def cacheSound_def Let_def)

lemma timerInv_at_most_one: "timerInv st \<Longrightarrow> length (timeouts (snd st)) \<le> 1"
proof -
  assume "timerInv st"
  then have "timeouts (snd st) = [] \<or> (\<exists>i. map timer_id (timeouts (snd st)) = [i])"
    by (auto simp: timerInv_iff)
  then show ?thesis
    by (cases "timeouts (snd st)") auto
qed
section \<open>A burst of write requests\<close>

lemma request_debounced:
  assumes "timerInv (h, e)" "debouncedWriteRef h = Some t"
  shows "useUrlState_request strategy key push ms param v (h, e)
           = useUrlState_setValue strategy key push ms param v (h, e)"
  unfolding useUrlState_request_def setValue_debounced [OF assms]
  by (simp add: render_live)

lemma burst_step:
  assumes f: "fresh ms (h, e)" and g: "gap < ms"
  shows "coalesced strategy param ms v (h, e)
           (useUrlState_request strategy key push ms param v
              (elapse (useUrlState_timeout strategy key push) gap (h, e)))"
proof -
  from f have inv: "timerInv (h, e)" and d: "debouncedWriteRef h \<noteq> None"
    and due: "list_all (\<lambda>t. due t = clock e + ms) (timeouts e)"
    by (simp_all add: fresh_def)
  from d obtain t0 where t0: "debouncedWriteRef h = Some t0" by auto
  have el: "elapse (useUrlState_timeout strategy key push) gap (h, e)
              = (h, e\<lparr>clock := clock e + gap\<rparr>)"
    using inv
  proof (cases rule: timerInv_cases)
    case idle
    then show ?thesis by (simp add: elapse_idle)
  next
    case (armed t)
    with due g show ?thesis by (simp add: elapse_not_due)
  qed
  have inv': "timerInv (h, e\<lparr>clock := clock e + gap\<rparr>)"
    using inv by (simp add: timerInv_iff)
  show ?thesis
    unfolding el request_debounced [OF inv' t0] setValue_debounced [OF inv' t0]
    by (simp add: coalesced_def fresh_def timerInv_iff)
qed

lemma coalesced_fresh: "coalesced strategy param ms v st0 st \<Longrightarrow> fresh ms st"
  by (simp add: coalesced_def)

lemma coalesced_trans:
  "coalesced strategy param ms v st0 st1 \<Longrightarrow> coalesced strategy param ms w st1 st2 \<Longrightarrow>
   coalesced strategy param ms w st0 st2"
  by (simp add: coalesced_def)

lemma burst_coalesced:
  assumes "reqs \<noteq> []" "fresh ms st" "list_all (\<lambda>r. fst r < ms) reqs"
  shows "coalesced strategy param ms (snd (last reqs)) st
           (useUrlState_burst strategy key push ms param reqs st)"
  using assms
proof (induction reqs arbitrary: st rule: list_nonempty_induct)
  case (single r)
  obtain g v where r: "r = (g, v)" by (cases r)
  obtain h e where st: "st = (h, e)" by (cases st)
  from single r st show ?case by (simp add: burst_step)
next
  case (cons r reqs)
  obtain g v where r: "r = (g, v)" by (cases r)
  obtain h e where st: "st = (h, e)" by (cases st)
  let ?st1 = "useUrlState_request strategy key push ms param v
                (elapse (useUrlState_timeout strategy key push) g st)"
  from cons.prems r st have c1: "coalesced strategy param ms v st ?st1"
    by (simp add: burst_step)
  from cons.prems have "list_all (\<lambda>r. fst r < ms) reqs" by simp
  with cons.IH [OF coalesced_fresh [OF c1]]
  have "coalesced strategy param ms (snd (last reqs)) ?st1
          (useUrlState_burst strategy key push ms param reqs ?st1)"
    by simp
  with c1 have "coalesced strategy param ms (snd (last reqs)) st
          (useUrlState_burst strategy key push ms param reqs ?st1)"
    by (rule coalesced_trans)
  with cons.hyps r show ?case by simp
qed

lemma coalesced_one_timer:
  assumes "coalesced strategy param ms v st0 st"
  obtains t where "timeouts (snd st) = [t]" "args t = (v, encode param v)"
    "due t = clock (snd st) + ms"
proof -
  from assms have m: "map args (timeouts (snd st)) = [(v, encode param v)]"
    and d: "list_all (\<lambda>t. due t = clock (snd st) + ms) (timeouts (snd st))"
    by (simp_all add: coalesced_def fresh_def)
  from m obtain t where "timeouts (snd st) = [t]" "args t = (v, encode param v)"
    by (cases "timeouts (snd st)") auto
  with d that show ?thesis by simp
qed

lemma coalesced_commit:
  assumes c: "coalesced strategy param ms v (h0, e0) st" and w: "has_window e0" and d: "ms \<le> d"
  shows "history_calls (snd (elapse (useUrlState_timeout strategy key push) d st))
           = history_calls e0
              @ [(push, buildUrl strategy (href e0)
                          (updateParam key (encode param v) (parse strategy (href e0))))]"
    and "href (snd (elapse (useUrlState_timeout strategy key push) d st))
           = buildUrl strategy (href e0)
               (updateParam key (encode param v) (parse strategy (href e0)))"
    and "popstates (snd (elapse (useUrlState_timeout strategy key push) d st))
           = Suc (popstates e0)"
    and "timeouts (snd (elapse (useUrlState_timeout strategy key push) d st)) = []"
    and "pendingRef (fst (elapse (useUrlState_timeout strategy key push) d st)) = None"
proof -
  obtain h e where st: "st = (h, e)" by (cases st)
  from c obtain t where t: "timeouts e = [t]" "args t = (v, encode param v)"
    "due t = clock e + ms"
    unfolding st by (rule coalesced_one_timer) simp
  from c st have same: "href e = href e0" "history_calls e = history_calls e0"
    "popstates e = popstates e0" "has_window e = has_window e0"
    by (simp_all add: coalesced_def)
  have el: "elapse (useUrlState_timeout strategy key push) d (h, e)
              = useUrlState_timeout strategy key push t
                  (h, e\<lparr>clock := clock e + d, timeouts := []\<rparr>)"
    using t d by (simp add: elapse_due)
  show "history_calls (snd (elapse (useUrlState_timeout strategy key push) d st))
           = history_calls e0
              @ [(push, buildUrl strategy (href e0)
                          (updateParam key (encode param v) (parse strategy (href e0))))]"
    and "href (snd (elapse (useUrlState_timeout strategy key push) d st))
           = buildUrl strategy (href e0)
               (updateParam key (encode param v) (parse strategy (href e0)))"
    and "popstates (snd (elapse (useUrlState_timeout strategy key push) d st))
           = Suc (popstates e0)"
    and "timeouts (snd (elapse (useUrlState_timeout strategy key push) d st)) = []"
    and "pendingRef (fst (elapse (useUrlState_timeout strategy key push) d st)) = None"
    unfolding st el using t same w
    by (simp_all add: useUrlState_timeout_def useUrlState_writeToUrl_def historyWrite_def Let_def)
qed

text \<open>
  Claim C3. Under a positive debounce delay, N write requests (N at least 1), each issued
  before the delay of the previous one has run out and each followed by the render it
  causes, produce exactly one commit, and that commit carries the last requested value:
  every request replaces the buffered value and the single timeout, so that during the
  burst exactly one timeout is live and nothing is committed.
\<close>

theorem debounce_coalesces:
  assumes "0 < debounceMs" and "has_window e" and "timeouts e = []"
    and "debouncedWriteRef h = Some None"
    and "reqs \<noteq> []" and "list_all (\<lambda>r. fst r < debounceMs) reqs" and "debounceMs \<le> d"
  shows
    "history_calls (snd (useUrlState_burst strategy key push debounceMs param reqs (h, e)))
       = history_calls e
     \<and> length (timeouts (snd (useUrlState_burst strategy key push debounceMs param reqs (h, e)))) = 1
     \<and> (\<forall>n. 0 < n \<and> n \<le> length reqs \<longrightarrow>
           length (timeouts (snd (useUrlState_burst strategy key push debounceMs param
                                    (take n reqs) (h, e)))) = 1)
     \<and> map args (timeouts (snd (useUrlState_burst strategy key push debounceMs param reqs (h, e))))
         = [(snd (last reqs), encode param (snd (last reqs)))]
     \<and> pendingRef (fst (useUrlState_burst strategy key push debounceMs param reqs (h, e)))
         = Some \<lparr>pw_decoded = snd (last reqs), prevRaw = getRaw strategy (href e)\<rparr>
     \<and> history_calls
          (snd (elapse (useUrlState_timeout strategy key push) d
                  (useUrlState_burst strategy key push debounceMs param reqs (h, e))))
         = history_calls e
            @ [(push, buildUrl strategy (href e)
                        (updateParam key (encode param (snd (last reqs)))
                           (parse strategy (href e))))]
     \<and> popstates
          (snd (elapse (useUrlState_timeout strategy key push) d
                  (useUrlState_burst strategy key push debounceMs param reqs (h, e))))
         = Suc (popstates e)
     \<and> timeouts
          (snd (elapse (useUrlState_timeout strategy key push) d
                  (useUrlState_burst strategy key push debounceMs param reqs (h, e))))
         = []"
proof -
  have f: "fresh debounceMs (h, e)"
    using assms(3,4) by (simp add: fresh_def timerInv_iff)
  have c: "coalesced strategy param debounceMs (snd (last reqs)) (h, e)
             (useUrlState_burst strategy key push debounceMs param reqs (h, e))"
    using assms(5) f assms(6) by (rule burst_coalesced)
  have p: "\<forall>n. 0 < n \<and> n \<le> length reqs \<longrightarrow>
             length (timeouts (snd (useUrlState_burst strategy key push debounceMs param
                                      (take n reqs) (h, e)))) = 1"
  proof (intro allI impI)
    fix n assume n: "0 < n \<and> n \<le> length reqs"
    then have ne: "take n reqs \<noteq> []" using assms(5) by auto
    have "list_all (\<lambda>r. fst r < debounceMs) (take n reqs)"
      using assms(6) by (auto simp: list_all_iff dest: in_set_takeD)
    with ne f
    have "coalesced strategy param debounceMs (snd (last (take n reqs))) (h, e)
            (useUrlState_burst strategy key push debounceMs param (take n reqs) (h, e))"
      by (rule burst_coalesced)
    then show "length (timeouts (snd (useUrlState_burst strategy key push debounceMs param
                                      (take n reqs) (h, e)))) = 1"
      by (rule coalesced_one_timer) simp
  qed
  have one: "length (timeouts (snd (useUrlState_burst strategy key push debounceMs param reqs (h, e)))) = 1"
    using c by (rule coalesced_one_timer) simp
  show ?thesis
    using c one p coalesced_commit [OF c assms(2) assms(7), of key push]
    by (simp add: coalesced_def)
qed

theorem debounce_coalesces_witness:
  "history_calls
     (snd (useUrlState_burst queryStrategy ''d'' False 500 (defStringParam 7 ''0'')
             [(0, ''1''), (100, ''2''), (499, ''3'')]
             (useUrlState_mount 500, browserAt ''/''))) = []
   \<and> history_calls
       (snd (elapse (useUrlState_timeout queryStrategy ''d'' False) 500
              (useUrlState_burst queryStrategy ''d'' False 500 (defStringParam 7 ''0'')
                 [(0, ''1''), (100, ''2''), (499, ''3'')]
                 (useUrlState_mount 500, browserAt ''/'')))) = [(False, ''/?d=3'')]"
proof -
  have m: "debouncedWriteRef (useUrlState_mount 500 :: string UrlState) = Some None"
    by (simp add: useUrlState_mount_def installDebounce_def)
  have b: "has_window (browserAt ''/'' :: string UrlStateEnv)"
    "timeouts (browserAt ''/'' :: string UrlStateEnv) = []"
    "history_calls (browserAt ''/'' :: string UrlStateEnv) = []"
    "href (browserAt ''/'' :: string UrlStateEnv) = ''/''"
    by (simp_all add: browserAt_def)
  have r: "[(0, ''1''), (100, ''2''), (499, ''3'')] \<noteq> ([] :: (nat \<times> string) list)"
    "list_all (\<lambda>r. fst r < 500) [(0 :: nat, ''1''), (100, ''2''), (499, ''3'')]"
    by simp_all
  have u: "buildUrl queryStrategy ''/''
             (updateParam ''d'' (encode (defStringParam 7 ''0'') ''3'') (parse queryStrategy ''/''))
           = ''/?d=3''"
    by code_simp
  from debounce_coalesces [of 500 "browserAt ''/''" "useUrlState_mount 500"
      "[(0, ''1''), (100, ''2''), (499, ''3'')]" 500 queryStrategy "''d''" False
      "defStringParam 7 ''0''", OF _ b(1) b(2) m r]
  show ?thesis
    by (simp add: b u)
qed

section \<open>What an observation returns\<close>

text \<open>
  Claim C1. On every render of \<open>useUrlState\<close> the value follows a fixed priority. A pending
  write is live when it is present and the raw location is still the one captured when it
  was scheduled; then its buffered value is returned. With no pending write, the causality
  record's decoded value is returned if its encoded value equals the snapshot's encoded
  value for the key, and a fresh decode of the snapshot's encoded value otherwise. The
  snapshot's encoded value for the key is the first value that the snapshot lists under
  the key, and absent when the key is not listed or lists no value; it is stated here on
  the snapshot itself. A pending write that the raw location has overtaken is discarded
  together with the causality record in that same render (claim C2), so no record is left
  to consult and the value is the fresh decode. In particular, after a debounced write
  request any render under the unchanged location returns the requested value and leaves
  the state as it is, so every further such render returns it as well.
\<close>

theorem observation_priority:
  assumes "cacheSound param h"
  shows
    "fst (useUrlState_render key param urlParams raw (h, e)) =
       (case pendingRef h of
          Some p \<Rightarrow>
            if raw = prevRaw p then pw_decoded p
            else decode param (case map_of urlParams key of Some (x # xs) \<Rightarrow> Some x | _ \<Rightarrow> None)
        | None \<Rightarrow>
            (case lastWrittenRef h of
               Some w \<Rightarrow>
                 if lw_encoded w = (case map_of urlParams key of Some (x # xs) \<Rightarrow> Some x | _ \<Rightarrow> None)
                 then lw_decoded w
                 else decode param (case map_of urlParams key of Some (x # xs) \<Rightarrow> Some x | _ \<Rightarrow> None)
             | None \<Rightarrow>
                 decode param (case map_of urlParams key of Some (x # xs) \<Rightarrow> Some x | _ \<Rightarrow> None)))
     \<and> (timerInv (h, e) \<and> debouncedWriteRef h \<noteq> None \<longrightarrow>
          href (snd (useUrlState_setValue strategy key push debounceMs param v (h, e))) = href e
          \<and> useUrlState_render key param urlParams (getRaw strategy (href e))
               (useUrlState_setValue strategy key push debounceMs param v (h, e))
             = (v, useUrlState_setValue strategy key push debounceMs param v (h, e)))"
proof -
  have rd: "multiToSingle (valuesOf urlParams key)
              = (case map_of urlParams key of Some (x # xs) \<Rightarrow> Some x | _ \<Rightarrow> None)"
  proof (cases "map_of urlParams key")
    case None
    then show ?thesis by (simp add: valuesOf_def getProperty_def rec_get_map_of)
  next
    case (Some m)
    then show ?thesis by (cases m) (simp_all add: valuesOf_def getProperty_def rec_get_map_of)
  qed
  have "timerInv (h, e) \<and> debouncedWriteRef h \<noteq> None \<longrightarrow>
          href (snd (useUrlState_setValue strategy key push debounceMs param v (h, e))) = href e
          \<and> useUrlState_render key param urlParams (getRaw strategy (href e))
               (useUrlState_setValue strategy key push debounceMs param v (h, e))
             = (v, useUrlState_setValue strategy key push debounceMs param v (h, e))"
  proof
    assume a: "timerInv (h, e) \<and> debouncedWriteRef h \<noteq> None"
    then obtain t where t: "debouncedWriteRef h = Some t" by auto
    from a have inv: "timerInv (h, e)" by simp
    show "href (snd (useUrlState_setValue strategy key push debounceMs param v (h, e))) = href e
          \<and> useUrlState_render key param urlParams (getRaw strategy (href e))
               (useUrlState_setValue strategy key push debounceMs param v (h, e))
             = (v, useUrlState_setValue strategy key push debounceMs param v (h, e))"
      unfolding setValue_debounced [OF inv t]
      by (simp add: render_live)
  qed
  with render_value [OF assms, of key urlParams raw e] show ?thesis
    unfolding rd by simp
qed

text \<open>
  Each level on a location that holds the key. Key \<open>d\<close> with default \<open>0\<close> on \<^verbatim>\<open>/?d=7\<close>: the
  first render decodes \<open>7\<close>; after a debounced request for \<open>42\<close> a render under the same
  location returns \<open>42\<close>. Key \<open>y\<close> with a codec that writes both \<open>A\<close> and \<open>B\<close> as \<open>x\<close> and
  reads \<open>x\<close> as \<open>B\<close>: after an immediate write of \<open>A\<close> the location is \<^verbatim>\<open>/?y=x\<close> and the
  render returns the recorded \<open>A\<close>, not the decoded \<open>B\<close>; once the browser has moved to
  \<^verbatim>\<open>/?y=m\<close> the record no longer matches and the render decodes \<open>M\<close>.
\<close>

theorem observation_priority_witness:
  "fst (useUrlState_render ''d'' (defStringParam 7 ''0'') (parse queryStrategy ''/?d=7'')
         (getRaw queryStrategy ''/?d=7'')
         (useUrlState_mount 500, browserAt ''/?d=7'' :: string UrlStateEnv))
     = ''7''
   \<and> fst (useUrlState_render ''d'' (defStringParam 7 ''0'') (parse queryStrategy ''/?d=7'')
           (getRaw queryStrategy ''/?d=7'')
           (useUrlState_setValue queryStrategy ''d'' False 500 (defStringParam 7 ''0'') ''42''
              (useUrlState_mount 500, browserAt ''/?d=7'')))
     = ''42''
   \<and> href (snd (useUrlState_setValue queryStrategy ''y'' False 0
                  (codeParam 3 ''R'' [(''A'', ''x''), (''B'', ''x''), (''M'', ''m'')]) ''A''
                  (useUrlState_mount 0, browserAt ''/'')))
     = ''/?y=x''
   \<and> fst (useUrlState_render ''y'' (codeParam 3 ''R'' [(''A'', ''x''), (''B'', ''x''), (''M'', ''m'')])
           (parse queryStrategy ''/?y=x'') (getRaw queryStrategy ''/?y=x'')
           (useUrlState_setValue queryStrategy ''y'' False 0
              (codeParam 3 ''R'' [(''A'', ''x''), (''B'', ''x''), (''M'', ''m'')]) ''A''
              (useUrlState_mount 0, browserAt ''/'')))
     = ''A''
   \<and> decode (codeParam 3 ''R'' [(''A'', ''x''), (''B'', ''x''), (''M'', ''m'')]) (Some ''x'') = ''B''
   \<and> fst (useUrlState_render ''y'' (codeParam 3 ''R'' [(''A'', ''x''), (''B'', ''x''), (''M'', ''m'')])
           (parse queryStrategy ''/?y=m'') (getRaw queryStrategy ''/?y=m'')
           (fst (useUrlState_setValue queryStrategy ''y'' False 0
                   (codeParam 3 ''R'' [(''A'', ''x''), (''B'', ''x''), (''M'', ''m'')]) ''A''
                   (useUrlState_mount 0, browserAt ''/'')),
            navigate ''/?y=m''
              (snd (useUrlState_setValue queryStrategy ''y'' False 0
                      (codeParam 3 ''R'' [(''A'', ''x''), (''B'', ''x''), (''M'', ''m'')]) ''A''
                      (useUrlState_mount 0, browserAt ''/'')))))
     = ''M''"
proof -
  define P where "P = defStringParam 7 ''0''"
  define C where "C = codeParam 3 ''R'' [(''A'', ''x''), (''B'', ''x''), (''M'', ''m'')]"
  define H :: "string UrlState" where
    "H = \<lparr>lastWrittenRef = Some \<lparr>lw_encoded = Some ''x'', lw_decoded = ''A''\<rparr>,
          pendingRef = None, cacheRef = None, debouncedWriteRef = None\<rparr>"
  define E :: "string UrlStateEnv" where
    "E = \<lparr>has_window = True, href = ''/?y=x'', history_calls = [(False, ''/?y=x'')],
          popstates = 1, clock = 0, last_timer = 0, timeouts = []\<rparr>"
  have c: "cacheSound P (useUrlState_mount 500)"
    by (simp add: cacheSound_def useUrlState_mount_def installDebounce_def)
  have i: "timerInv (useUrlState_mount 500 :: string UrlState, browserAt ''/?d=7'' :: string UrlStateEnv)
           \<and> debouncedWriteRef (useUrlState_mount 500 :: string UrlState) \<noteq> None"
    by (simp add: timerInv_iff useUrlState_mount_def installDebounce_def browserAt_def)
  have r: "href (browserAt ''/?d=7'' :: string UrlStateEnv) = ''/?d=7''"
    by (simp add: browserAt_def)
  have p: "pendingRef (useUrlState_mount 500 :: string UrlState) = None"
    "lastWrittenRef (useUrlState_mount 500 :: string UrlState) = None"
    by (simp_all add: useUrlState_mount_def installDebounce_def)
  have m7: "map_of (parse queryStrategy ''/?d=7'') ''d'' = Some [''7'']"
    and x7: "multiToSingle (valuesOf (parse queryStrategy ''/?d=7'') ''d'') = Some ''7''"
    by code_simp+
  have d7: "decode P (Some ''7'') = ''7''"
    by (simp add: P_def defStringParam_def)
  note T1 = observation_priority [OF c, of "''d''" "parse queryStrategy ''/?d=7''"
      "getRaw queryStrategy ''/?d=7''" "browserAt ''/?d=7''" queryStrategy False 500 "''42''"]
  from T1 have v1: "fst (useUrlState_render ''d'' P (parse queryStrategy ''/?d=7'')
                          (getRaw queryStrategy ''/?d=7'')
                          (useUrlState_mount 500, browserAt ''/?d=7'' :: string UrlStateEnv)) = ''7''"
    by (simp add: p m7 d7)
  from T1 i have v2: "fst (useUrlState_render ''d'' P (parse queryStrategy ''/?d=7'')
                          (getRaw queryStrategy ''/?d=7'')
                          (useUrlState_setValue queryStrategy ''d'' False 500 P ''42''
                             (useUrlState_mount 500, browserAt ''/?d=7''))) = ''42''"
    by (simp add: r)
  have enc: "encode C ''A'' = Some ''x''"
    unfolding C_def by code_simp
  have u: "buildUrl queryStrategy ''/'' (updateParam ''y'' (Some ''x'') (parse queryStrategy ''/''))
             = ''/?y=x''"
    by code_simp
  have s: "useUrlState_setValue queryStrategy ''y'' False 0 C ''A''
             (useUrlState_mount 0, browserAt ''/'') = (H, E)"
    by (simp add: useUrlState_setValue_def useUrlState_mount_def installDebounce_def
          useUrlState_writeToUrl_def historyWrite_def browserAt_def Let_def enc u H_def E_def)
  have n: "navigate ''/?y=m'' E = E\<lparr>href := ''/?y=m''\<rparr>"
    by (simp add: navigate_def)
  have cH: "cacheSound C H"
    by (simp add: cacheSound_def H_def)
  have pH: "pendingRef H = None"
    "lastWrittenRef H = Some \<lparr>lw_encoded = Some ''x'', lw_decoded = ''A''\<rparr>"
    by (simp_all add: H_def)
  have mx: "map_of (parse queryStrategy ''/?y=x'') ''y'' = Some [''x'']"
    and mm: "map_of (parse queryStrategy ''/?y=m'') ''y'' = Some [''m'']"
    and xm: "multiToSingle (valuesOf (parse queryStrategy ''/?y=m'') ''y'') = Some ''m''"
    by code_simp+
  have dx: "decode C (Some ''x'') = ''B''" and dm: "decode C (Some ''m'') = ''M''"
    unfolding C_def by code_simp+
  from observation_priority [OF cH, of "''y''" "parse queryStrategy ''/?y=x''"
      "getRaw queryStrategy ''/?y=x''" E queryStrategy False 0 "''A''"]
  have v3: "fst (useUrlState_render ''y'' C (parse queryStrategy ''/?y=x'')
                   (getRaw queryStrategy ''/?y=x'') (H, E)) = ''A''"
    by (simp add: pH mx)
  from observation_priority [OF cH, of "''y''" "parse queryStrategy ''/?y=m''"
      "getRaw queryStrategy ''/?y=m''" "E\<lparr>href := ''/?y=m''\<rparr>" queryStrategy False 0 "''A''"]
  have v4: "fst (useUrlState_render ''y'' C (parse queryStrategy ''/?y=m'')
                   (getRaw queryStrategy ''/?y=m'') (H, E\<lparr>href := ''/?y=m''\<rparr>)) = ''M''"
    by (simp add: pH mm dm)
  have hE: "href E = ''/?y=x''" by (simp add: E_def)
  show ?thesis
    using v1 v2 v3 v4 dx
    unfolding P_def [symmetric] C_def [symmetric] s n fst_conv snd_conv
    by (simp add: hE)
qed

section \<open>External changes during the pending window\<close>

lemma states_render_live:
  "pendingRef h = Some p \<Longrightarrow> raw = prevRaw p \<Longrightarrow>
   useUrlStates_render params urlParams raw (h, e)
     = (mergePending params urlParams (pw_decoded p) (lastWrittenRef h), (h, e))"
  by (simp add: useUrlStates_render_def)

lemma states_render_stale:
  "pendingRef h = Some p \<Longrightarrow> raw \<noteq> prevRaw p \<Longrightarrow>
   useUrlStates_render params urlParams raw (h, e)
     = (decodeAll params urlParams,
        ((fst (cancelRef (h\<lparr>pendingRef := None\<rparr>, e)))\<lparr>lastWrittenRef := []\<rparr>,
         snd (cancelRef (h\<lparr>pendingRef := None\<rparr>, e))))"
  by (simp add: useUrlStates_render_def Let_def case_prod_beta)

lemma decodeAll_snapshot:
  "decodeAll params urlParams
     = map (\<lambda>(k, prm).
              (k, Value (decode prm (case map_of urlParams k of Some (x # xs) \<Rightarrow> Some x | _ \<Rightarrow> None))))
         params"
  by (simp add: decodeAll_def multiToSingle_valuesOf)

text \<open>
  The timer invariant is established when the batched hook is mounted and kept by each of
  its operations, as for the single-value hook.
\<close>

lemma states_writeToUrl_timeouts:
  "timeouts (useUrlStates_writeToUrl strategy push updates e) = timeouts e"
  by (simp add: useUrlStates_writeToUrl_def historyWrite_def Let_def)

lemma timerInv_states_mount:
  "timeouts e = [] \<Longrightarrow> timerInv (useUrlStates_mount debounceMs, e)"
  by (simp add: timerInv_iff useUrlStates_mount_def installDebounce_def)

lemma timerInv_setValues:
  assumes "timerInv st"
  shows "timerInv (snd (useUrlStates_setValues strategy push ms params updates st))"
proof -
  obtain h e where st: "st = (h, e)" by (cases st)
  obtain thrown eu w where r: "encodeUpdates params updates ([], lastWrittenRef h) = (thrown, eu, w)"
    by (cases "encodeUpdates params updates ([], lastWrittenRef h)")
  have inv: "timerInv (h\<lparr>lastWrittenRef := w\<rparr>, e)"
    using assms st by (simp add: timerInv_iff)
  show ?thesis
  proof (cases thrown)
    case (Some ex)
    then show ?thesis
      using inv by (simp add: st useUrlStates_setValues_def r)
  next
    case None
    show ?thesis
    proof (cases "debouncedWriteRef h")
      case n: None
      then show ?thesis
        using inv None
        by (simp add: st useUrlStates_setValues_def r timerInv_iff states_writeToUrl_timeouts)
    next
      case (Some t)
      then have t: "debouncedWriteRef (h\<lparr>lastWrittenRef := w\<rparr>) = Some t" by simp
      show ?thesis
        using None Some debounced_armed [OF inv t, of ms eu]
        by (simp add: st useUrlStates_setValues_def r Let_def timerInv_iff)
    qed
  qed
qed

lemma timerInv_states_render:
  assumes "timerInv st"
  shows "timerInv (snd (useUrlStates_render params urlParams raw st))"
proof -
  obtain h e where st: "st = (h, e)" by (cases st)
  have c: "timerInv (h\<lparr>pendingRef := None\<rparr>, e)"
    using assms st by (simp add: timerInv_iff)
  have "timerInv (cancelRef (h\<lparr>pendingRef := None\<rparr>, e))"
    using cancelRef_timers [OF c] by (cases "debouncedWriteRef h") (simp_all add: timerInv_iff)
  then have d: "timerInv ((fst (cancelRef (h\<lparr>pendingRef := None\<rparr>, e)))\<lparr>lastWrittenRef := []\<rparr>,
                          snd (cancelRef (h\<lparr>pendingRef := None\<rparr>, e)))"
    by (simp add: timerInv_iff)
  have m: "\<And>w. timerInv (h\<lparr>lastWrittenRef := w\<rparr>, e)"
    using assms st by (simp add: timerInv_iff)
  show ?thesis
    using assms d m unfolding st
    by (simp add: useUrlStates_render_def Let_def case_prod_beta split: option.splits)
qed

lemma states_timeout_timerInv:
  "timeouts e = [] \<Longrightarrow> timerInv (useUrlStates_timeout strategy push t (h, e))"
  by (cases "debouncedWriteRef h")
     (simp_all add: useUrlStates_timeout_def Let_def timerInv_iff states_writeToUrl_timeouts)

lemma timerInv_states_elapse:
  assumes "timerInv st"
  shows "timerInv (elapse (useUrlStates_timeout strategy push) d st)"
proof -
  obtain h e where st: "st = (h, e)" by (cases st)
  from assms [unfolded st] show ?thesis
  proof (cases rule: timerInv_cases)
    case idle
    then show ?thesis using assms st by (simp add: elapse_idle timerInv_iff)
  next
    case (armed t)
    show ?thesis
    proof (cases "due t \<le> clock e + d")
      case True
      with armed show ?thesis
        unfolding st by (simp add: elapse_due states_timeout_timerInv)
    next
      case False
      with armed assms show ?thesis
        unfolding st by (simp add: elapse_not_due timerInv_iff)
    qed
  qed
qed

text \<open>
  Claim C2. While a write is pending, a render compares the full raw location with the raw
  string captured when the write was scheduled, and nothing else. While they are equal the
  buffered value is returned and the state is untouched. As soon as they differ, the
  pending write and the causality record are cleared in the same render, the timeout is
  cancelled, the value returned is a fresh decode of the snapshot (for each key, the
  codec's decoding of the first value that the snapshot lists under the key, or of the
  absent value when it lists none), and however much time passes afterwards no commit is
  made and the location stays as it is. The same holds for the batched hook
  \<open>useUrlStates\<close>, for every key it is configured with.
\<close>

theorem external_change_wins:
  "(timerInv (h, e) \<and> debouncedWriteRef h \<noteq> None \<longrightarrow>
      pendingRef (fst (useUrlState_setValue strategy key push debounceMs param v (h, e)))
        = Some \<lparr>pw_decoded = v, prevRaw = getRaw strategy (href e)\<rparr>)
   \<and> (timerInv (h, e) \<and> pendingRef h = Some p \<and> raw = prevRaw p \<longrightarrow>
        useUrlState_render key param urlParams raw (h, e) = (pw_decoded p, (h, e)))
   \<and> (timerInv (h, e) \<and> pendingRef h = Some p \<and> raw \<noteq> prevRaw p \<longrightarrow>
        pendingRef (fst (snd (useUrlState_render key param urlParams raw (h, e)))) = None
        \<and> lastWrittenRef (fst (snd (useUrlState_render key param urlParams raw (h, e)))) = None
        \<and> timeouts (snd (snd (useUrlState_render key param urlParams raw (h, e)))) = []
        \<and> (cacheSound param h \<longrightarrow>
             fst (useUrlState_render key param urlParams raw (h, e))
               = decode param
                   (case map_of urlParams key of Some (x # xs) \<Rightarrow> Some x | _ \<Rightarrow> None))
        \<and> (\<forall>d. history_calls
                   (snd (elapse (useUrlState_timeout strategy key push) d
                           (snd (useUrlState_render key param urlParams raw (h, e)))))
                 = history_calls e
               \<and> href (snd (elapse (useUrlState_timeout strategy key push) d
                               (snd (useUrlState_render key param urlParams raw (h, e)))))
                 = href e))
   \<and> (timerInv (hs, es) \<and> pendingRef hs = Some ps \<and> raw = prevRaw ps \<longrightarrow>
        snd (useUrlStates_render params urlParams raw (hs, es)) = (hs, es))
   \<and> (timerInv (hs, es) \<and> pendingRef hs = Some ps \<and> raw \<noteq> prevRaw ps \<longrightarrow>
        pendingRef (fst (snd (useUrlStates_render params urlParams raw (hs, es)))) = None
        \<and> lastWrittenRef (fst (snd (useUrlStates_render params urlParams raw (hs, es)))) = []
        \<and> timeouts (snd (snd (useUrlStates_render params urlParams raw (hs, es)))) = []
        \<and> fst (useUrlStates_render params urlParams raw (hs, es))
            = map (\<lambda>(k, prm).
                     (k, Value (decode prm
                           (case map_of urlParams k of Some (x # xs) \<Rightarrow> Some x | _ \<Rightarrow> None))))
                params
        \<and> (\<forall>d. history_calls
                   (snd (elapse (useUrlStates_timeout strategy push) d
                           (snd (useUrlStates_render params urlParams raw (hs, es)))))
                 = history_calls es
               \<and> href (snd (elapse (useUrlStates_timeout strategy push) d
                               (snd (useUrlStates_render params urlParams raw (hs, es)))))
                 = href es))"
proof (intro conjI impI)
  assume a: "timerInv (h, e) \<and> debouncedWriteRef h \<noteq> None"
  then obtain t where t: "debouncedWriteRef h = Some t" by auto
  from a have inv: "timerInv (h, e)" by simp
  show "pendingRef (fst (useUrlState_setValue strategy key push debounceMs param v (h, e)))
        = Some \<lparr>pw_decoded = v, prevRaw = getRaw strategy (href e)\<rparr>"
    unfolding setValue_debounced [OF inv t] by simp
next
  assume "timerInv (h, e) \<and> pendingRef h = Some p \<and> raw = prevRaw p"
  then show "useUrlState_render key param urlParams raw (h, e) = (pw_decoded p, (h, e))"
    by (simp add: render_live)
next
  assume a: "timerInv (h, e) \<and> pendingRef h = Some p \<and> raw \<noteq> prevRaw p"
  then have inv: "timerInv (h\<lparr>pendingRef := None\<rparr>, e)"
    by (simp add: timerInv_iff)
  let ?c = "cancelRef (h\<lparr>pendingRef := None\<rparr>, e)"
  let ?r = "useUrlState_render key param urlParams raw (h, e)"
  have s: "snd ?r = (snd (decodeFromUrl param (multiToSingle (valuesOf urlParams key)) (fst ?c)),
                     snd ?c)"
    using a by (simp add: render_stale)
  show p: "pendingRef (fst (snd ?r)) = None"
    by (simp add: s decodeFromUrl_refs cancelRef_refs)
  show "lastWrittenRef (fst (snd ?r)) = None"
    by (simp add: s decodeFromUrl_refs)
  show t: "timeouts (snd (snd ?r)) = []"
    by (simp add: s cancelRef_timers [OF inv])
  have rd: "multiToSingle (valuesOf urlParams key)
              = (case map_of urlParams key of Some (x # xs) \<Rightarrow> Some x | _ \<Rightarrow> None)"
  proof (cases "map_of urlParams key")
    case None
    then show ?thesis by (simp add: valuesOf_def getProperty_def rec_get_map_of)
  next
    case (Some m)
    then show ?thesis by (cases m) (simp_all add: valuesOf_def getProperty_def rec_get_map_of)
  qed
  show "fst ?r = decode param
                    (case map_of urlParams key of Some (x # xs) \<Rightarrow> Some x | _ \<Rightarrow> None)"
    if "cacheSound param h"
    using that a by (simp add: render_value rd)
  have el: "\<And>d. elapse (useUrlState_timeout strategy key push) d (snd ?r)
              = (fst (snd ?r), (snd (snd ?r))\<lparr>clock := clock (snd (snd ?r)) + d\<rparr>)"
    using elapse_idle [OF t, of "useUrlState_timeout strategy key push" _ "fst (snd ?r)"]
    by simp
  show "\<forall>d. history_calls (snd (elapse (useUrlState_timeout strategy key push) d (snd ?r)))
              = history_calls e
            \<and> href (snd (elapse (useUrlState_timeout strategy key push) d (snd ?r))) = href e"
    unfolding el by (simp add: s cancelRef_env)
next
  assume "timerInv (hs, es) \<and> pendingRef hs = Some ps \<and> raw = prevRaw ps"
  then show "snd (useUrlStates_render params urlParams raw (hs, es)) = (hs, es)"
    by (simp add: states_render_live)
next
  assume a: "timerInv (hs, es) \<and> pendingRef hs = Some ps \<and> raw \<noteq> prevRaw ps"
  then have inv: "timerInv (hs\<lparr>pendingRef := None\<rparr>, es)"
    by (simp add: timerInv_iff)
  let ?c = "cancelRef (hs\<lparr>pendingRef := None\<rparr>, es)"
  let ?r = "useUrlStates_render params urlParams raw (hs, es)"
  have r: "?r = (decodeAll params urlParams, ((fst ?c)\<lparr>lastWrittenRef := []\<rparr>, snd ?c))"
    using a by (simp add: states_render_stale)
  show "pendingRef (fst (snd ?r)) = None"
    by (simp add: r cancelRef_refs)
  show "lastWrittenRef (fst (snd ?r)) = []"
    by (simp add: r)
  show t: "timeouts (snd (snd ?r)) = []"
    by (simp add: r cancelRef_timers [OF inv])
  show "fst ?r = map (\<lambda>(k, prm).
                     (k, Value (decode prm
                           (case map_of urlParams k of Some (x # xs) \<Rightarrow> Some x | _ \<Rightarrow> None))))
                params"
  proof -
    have "multiToSingle (valuesOf urlParams k)
            = (case map_of urlParams k of Some (x # xs) \<Rightarrow> Some x | _ \<Rightarrow> None)" for k
    proof (cases "map_of urlParams k")
      case None
      then show ?thesis by (simp add: valuesOf_def getProperty_def rec_get_map_of)
    next
      case (Some m)
      then show ?thesis by (cases m) (simp_all add: valuesOf_def getProperty_def rec_get_map_of)
    qed
    then show ?thesis by (simp add: r decodeAll_def)
  qed
  have el: "\<And>d. elapse (useUrlStates_timeout strategy push) d (snd ?r)
              = (fst (snd ?r), (snd (snd ?r))\<lparr>clock := clock (snd (snd ?r)) + d\<rparr>)"
    using elapse_idle [OF t, of "useUrlStates_timeout strategy push" _ "fst (snd ?r)"]
    by simp
  show "\<forall>d. history_calls (snd (elapse (useUrlStates_timeout strategy push) d (snd ?r)))
              = history_calls es
            \<and> href (snd (elapse (useUrlStates_timeout strategy push) d (snd ?r))) = href es"
    unfolding el by (simp add: r cancelRef_env)
qed


text \<open>
  The scenario of the incident report, on a location that holds the key: key \<open>d\<close>, default
  \<open>0\<close>, a delay of 500 ms. A write of \<open>99\<close> is requested on the empty location; 100 ms
  later the browser is moved to \<^verbatim>\<open>/?d=7&n=hello\<close>. The next render returns \<open>7\<close>, neither
  the buffered \<open>99\<close> nor the default, and after 600 more milliseconds nothing has been
  committed. The batched hook behaves alike.
\<close>

theorem external_change_wins_witness:
  "fst (useUrlState_render ''d'' (defStringParam 7 ''0'') (parse queryStrategy ''/?d=7&n=hello'')
         (getRaw queryStrategy ''/?d=7&n=hello'')
         (fst (useUrlState_setValue queryStrategy ''d'' False 500 (defStringParam 7 ''0'') ''99''
                 (useUrlState_mount 500, browserAt ''/'')),
          navigate ''/?d=7&n=hello''
            (snd (elapse (useUrlState_timeout queryStrategy ''d'' False) 100
               (useUrlState_setValue queryStrategy ''d'' False 500 (defStringParam 7 ''0'') ''99''
                 (useUrlState_mount 500, browserAt ''/'')))))) = ''7''
   \<and> href (snd (elapse (useUrlState_timeout queryStrategy ''d'' False) 600
        (snd (useUrlState_render ''d'' (defStringParam 7 ''0'') (parse queryStrategy ''/?d=7&n=hello'')
         (getRaw queryStrategy ''/?d=7&n=hello'')
         (fst (useUrlState_setValue queryStrategy ''d'' False 500 (defStringParam 7 ''0'') ''99''
                 (useUrlState_mount 500, browserAt ''/'')),
          navigate ''/?d=7&n=hello''
            (snd (elapse (useUrlState_timeout queryStrategy ''d'' False) 100
               (useUrlState_setValue queryStrategy ''d'' False 500 (defStringParam 7 ''0'') ''99''
                 (useUrlState_mount 500, browserAt ''/'')))))))))
       = ''/?d=7&n=hello''
   \<and> fst (useUrlStates_render [(''d'', defStringParam 7 ''0''), (''n'', defStringParam 8 [])]
         (parse queryStrategy ''/?d=7&n=hello'')
         (getRaw queryStrategy ''/?d=7&n=hello'')
         (fst (snd (useUrlStates_setValues queryStrategy False 500
                 [(''d'', defStringParam 7 ''0''), (''n'', defStringParam 8 [])]
                 [(''d'', ''99'')] (useUrlStates_mount 500, browserAt ''/''))),
          navigate ''/?d=7&n=hello''
            (snd (snd (useUrlStates_setValues queryStrategy False 500
                 [(''d'', defStringParam 7 ''0''), (''n'', defStringParam 8 [])]
                 [(''d'', ''99'')] (useUrlStates_mount 500, browserAt ''/''))))))
       = [(''d'', Value ''7''), (''n'', Value ''hello'')]"
proof -
  define P where "P = defStringParam 7 ''0''"
  define N where "N = defStringParam 8 []"
  define L where "L = ''/?d=7&n=hello''"
  define H :: "string UrlState" where
    "H = \<lparr>lastWrittenRef = Some \<lparr>lw_encoded = Some ''99'', lw_decoded = ''99''\<rparr>,
          pendingRef = Some \<lparr>pw_decoded = ''99'', prevRaw = []\<rparr>,
          cacheRef = None, debouncedWriteRef = Some (Some 1)\<rparr>"
  define E :: "string UrlStateEnv" where
    "E = \<lparr>has_window = True, href = L, history_calls = [], popstates = 0,
          clock = 100, last_timer = 1,
          timeouts = [\<lparr>timer_id = 1, due = 500, args = (''99'', Some ''99'')\<rparr>]\<rparr>"
  have s1: "useUrlState_setValue queryStrategy ''d'' False 500 P ''99''
              (useUrlState_mount 500, browserAt ''/'')
            = (H, (E :: string UrlStateEnv)\<lparr>href := ''/'', clock := 0\<rparr>)"
    by (simp add: useUrlState_setValue_def useUrlState_mount_def installDebounce_def
          browserAt_def debounced_def truthy_def setTimeout_def Let_def H_def E_def P_def
          defStringParam_def queryStrategy_def afterChar_def beforeChar_def)
  have e1: "snd (elapse (useUrlState_timeout queryStrategy ''d'' False) 100
                   (H, (E :: string UrlStateEnv)\<lparr>href := ''/'', clock := 0\<rparr>))
            = E\<lparr>href := ''/''\<rparr>"
    by (simp add: elapse_def dueNow_def E_def)
  have n1: "navigate L ((E :: string UrlStateEnv)\<lparr>href := ''/''\<rparr>) = E"
    by (simp add: navigate_def E_def)
  have raw: "getRaw queryStrategy L = ''d=7&n=hello''"
    by (simp add: L_def queryStrategy_def afterChar_def beforeChar_def)
  have hyp: "timerInv (H, E) \<and> pendingRef H = Some \<lparr>pw_decoded = ''99'', prevRaw = []\<rparr>
             \<and> ''d=7&n=hello'' \<noteq> prevRaw \<lparr>pw_decoded = ''99'', prevRaw = []\<rparr>"
    by (simp add: timerInv_iff H_def E_def)
  have cs: "cacheSound P H"
    by (simp add: cacheSound_def H_def)
  have md: "map_of (parse queryStrategy L) ''d'' = Some [''7'']"
    and mn: "map_of (parse queryStrategy L) ''n'' = Some [''hello'']"
    and xd: "multiToSingle (valuesOf (parse queryStrategy L) ''d'') = Some ''7''"
    and xs: "decodeAll [(''d'', defStringParam 7 ''0''), (''n'', defStringParam 8 [])]
               (parse queryStrategy L) = [(''d'', Value ''7''), (''n'', Value ''hello'')]"
    unfolding L_def by code_simp+
  have dec: "decode P (Some ''7'') = ''7''" "decode N (Some ''hello'') = ''hello''"
    by (simp_all add: P_def N_def defStringParam_def)
  define Hs :: "string UrlStates" where
    "Hs = \<lparr>lastWrittenRef = [(''d'', \<lparr>lw_encoded = Some ''99'', lw_decoded = ''99''\<rparr>)],
           pendingRef = Some \<lparr>pw_decoded = [(''d'', ''99'')], prevRaw = []\<rparr>,
           cacheRef = (), debouncedWriteRef = Some (Some 1)\<rparr>"
  define Es :: "string UrlStatesEnv" where
    "Es = \<lparr>has_window = True, href = L, history_calls = [], popstates = 0,
           clock = 0, last_timer = 1,
           timeouts = [\<lparr>timer_id = 1, due = 500,
                         args = [(''d'', \<lparr>lw_encoded = Some ''99'', lw_decoded = ''99''\<rparr>)]\<rparr>]\<rparr>"
  have s2: "useUrlStates_setValues queryStrategy False 500 [(''d'', P), (''n'', N)] [(''d'', ''99'')]
              (useUrlStates_mount 500, browserAt ''/'')
            = (None, (Hs, (Es :: string UrlStatesEnv)\<lparr>href := ''/''\<rparr>))"
    by (simp add: useUrlStates_setValues_def useUrlStates_mount_def installDebounce_def
          getProperty_def
          browserAt_def debounced_def truthy_def setTimeout_def Let_def Hs_def Es_def P_def
          defStringParam_def queryStrategy_def afterChar_def beforeChar_def)
  have n2: "navigate L ((Es :: string UrlStatesEnv)\<lparr>href := ''/''\<rparr>) = Es"
    by (simp add: navigate_def Es_def)
  have hyps: "timerInv (Hs, Es)
              \<and> pendingRef Hs = Some \<lparr>pw_decoded = [(''d'', ''99'')], prevRaw = []\<rparr>
              \<and> ''d=7&n=hello'' \<noteq> prevRaw \<lparr>pw_decoded = [(''d'', ''99'')], prevRaw = []\<rparr>"
    by (simp add: timerInv_iff Hs_def Es_def)
  have hrefE: "href E = L" by (simp add: E_def)
  note T = external_change_wins [of H E queryStrategy "''d''" False 500 P "''99''"
      "\<lparr>pw_decoded = ''99'', prevRaw = []\<rparr>" "''d=7&n=hello''" "parse queryStrategy L"
      Hs Es "\<lparr>pw_decoded = [(''d'', ''99'')], prevRaw = []\<rparr>" "[(''d'', P), (''n'', N)]"]
  from T hyp cs have v: "fst (useUrlState_render ''d'' P (parse queryStrategy L)
                                ''d=7&n=hello'' (H, E))
                           = decode P (case map_of (parse queryStrategy L) ''d'' of
                                         Some (x # xs) \<Rightarrow> Some x | _ \<Rightarrow> None)"
    by blast
  from T hyp have l: "href (snd (elapse (useUrlState_timeout queryStrategy ''d'' False) 600
                        (snd (useUrlState_render ''d'' P (parse queryStrategy L)
                                ''d=7&n=hello'' (H, E))))) = href E"
    by blast
  from T hyps have vs: "fst (useUrlStates_render [(''d'', P), (''n'', N)] (parse queryStrategy L)
                                ''d=7&n=hello'' (Hs, Es))
                         = map (\<lambda>(k, prm).
                                  (k, Value (decode prm
                                        (case map_of (parse queryStrategy L) k of
                                           Some (x # xs) \<Rightarrow> Some x | _ \<Rightarrow> None))))
                             [(''d'', P), (''n'', N)]"
    by blast
  show ?thesis
    using v l vs
    unfolding P_def [symmetric] N_def [symmetric] L_def [symmetric] s1 e1 n1 s2 n2 raw
      fst_conv snd_conv
    by (simp add: md mn dec hrefE)
qed

section \<open>The causality record\<close>

lemma arraysEqualSlot_Member:
  "arraysEqualSlot a (Member k) \<longleftrightarrow> a = [] \<and> memberLength k = Some 0"
  by (cases a) auto

lemma multi_render_hit:
  "pendingRef h = None \<Longrightarrow> lastWrittenRef h = Some w \<Longrightarrow>
   valuesOf urlParams key = Listed (lw_encoded w) \<Longrightarrow>
   useMultiUrlState_render key param urlParams raw (h, e) = (Value (lw_decoded w), (h, e))"
  by (simp add: useMultiUrlState_render_def arraysEqual_iff)

lemma multi_render_miss:
  "pendingRef h = None \<Longrightarrow> valuesOf urlParams key = Listed enc \<Longrightarrow>
   \<forall>w. lastWrittenRef h = Some w \<longrightarrow> lw_encoded w \<noteq> enc \<Longrightarrow>
   useMultiUrlState_render key param urlParams raw (h, e)
     = (Value (decode param enc), (h\<lparr>lastWrittenRef := None\<rparr>, e))"
  by (auto simp: useMultiUrlState_render_def Let_def arraysEqual_iff decodeSlot_def
           split: option.splits)

lemma multi_render_member:
  "pendingRef h = None \<Longrightarrow> valuesOf urlParams key = Member k \<Longrightarrow>
   useMultiUrlState_render key param urlParams raw (h, e)
     = (case lastWrittenRef h of
          Some w \<Rightarrow>
            if lw_encoded w = [] \<and> memberLength k = Some 0 then (Value (lw_decoded w), (h, e))
            else (DecodedMember k, (h\<lparr>lastWrittenRef := None\<rparr>, e))
        | None \<Rightarrow> (DecodedMember k, (h\<lparr>lastWrittenRef := None\<rparr>, e)))"
  by (auto simp: useMultiUrlState_render_def Let_def arraysEqualSlot_Member decodeSlot_def
           simp del: arraysEqualSlot.simps split: option.splits)

text \<open>
  The lookup of the causality record where the snapshot lists the key or the key names no
  inherited member. It hits exactly when the recorded encoded value equals the current
  one: equality of strings (or of \<open>undefined\<close>) in \<open>useUrlState\<close>, and \<open>arraysEqual\<close>, which
  is equality of the two lists element by element and in order, in \<open>useMultiUrlState\<close>. On
  a hit the recorded decoded value is returned and the state is untouched. On a miss with
  no write pending the record is set to \<open>null\<close> and the value returned is the decode of the
  current encoded value. For \<open>useUrlState\<close> this holds for every key.
\<close>

lemma causality_lookup_listed:
  "(arraysEqual a b \<longleftrightarrow> a = b)
   \<and> (pendingRef h = None \<and> lastWrittenRef h = Some w
        \<and> lw_encoded w = (case map_of urlParams key of Some (x # xs) \<Rightarrow> Some x | _ \<Rightarrow> None) \<longrightarrow>
        useUrlState_render key param urlParams raw (h, e) = (lw_decoded w, (h, e)))
   \<and> (pendingRef h = None
        \<and> (\<forall>w. lastWrittenRef h = Some w \<longrightarrow>
                 lw_encoded w \<noteq> (case map_of urlParams key of Some (x # xs) \<Rightarrow> Some x | _ \<Rightarrow> None))
        \<longrightarrow>
        lastWrittenRef (fst (snd (useUrlState_render key param urlParams raw (h, e)))) = None
        \<and> (cacheSound param h \<longrightarrow>
             fst (useUrlState_render key param urlParams raw (h, e))
               = decode param (case map_of urlParams key of Some (x # xs) \<Rightarrow> Some x | _ \<Rightarrow> None)))
   \<and> (pendingRef hm = None \<and> lastWrittenRef hm = Some wm
        \<and> valuesOf urlParams key = Listed (lw_encoded wm) \<longrightarrow>
        useMultiUrlState_render key mparam urlParams raw (hm, e) = (Value (lw_decoded wm), (hm, e)))
   \<and> (pendingRef hm = None \<and> valuesOf urlParams key = Listed enc
        \<and> (\<forall>w. lastWrittenRef hm = Some w \<longrightarrow> lw_encoded w \<noteq> enc)
        \<longrightarrow>
        useMultiUrlState_render key mparam urlParams raw (hm, e)
          = (Value (decode mparam enc), (hm\<lparr>lastWrittenRef := None\<rparr>, e)))
   \<and> (valuesOf urlParams key = Listed enc \<longleftrightarrow>
        map_of urlParams key = Some enc
        \<or> (map_of urlParams key = None \<and> key \<notin> set objectPrototypeKeys \<and> enc = []))"
proof (intro conjI impI)
  show "arraysEqual a b \<longleftrightarrow> a = b" by (rule arraysEqual_iff)
next
  assume "pendingRef h = None \<and> lastWrittenRef h = Some w
          \<and> lw_encoded w = (case map_of urlParams key of Some (x # xs) \<Rightarrow> Some x | _ \<Rightarrow> None)"
  then show "useUrlState_render key param urlParams raw (h, e) = (lw_decoded w, (h, e))"
    by (simp add: render_hit multiToSingle_valuesOf)
next
  assume a: "pendingRef h = None
     \<and> (\<forall>w. lastWrittenRef h = Some w \<longrightarrow>
              lw_encoded w \<noteq> (case map_of urlParams key of Some (x # xs) \<Rightarrow> Some x | _ \<Rightarrow> None))"
  then show "lastWrittenRef (fst (snd (useUrlState_render key param urlParams raw (h, e)))) = None"
    by (simp add: render_miss decodeFromUrl_refs multiToSingle_valuesOf)
  show "fst (useUrlState_render key param urlParams raw (h, e))
          = decode param (case map_of urlParams key of Some (x # xs) \<Rightarrow> Some x | _ \<Rightarrow> None)"
    if "cacheSound param h"
    using that a by (auto simp: render_value multiToSingle_valuesOf split: option.splits)
next
  assume "pendingRef hm = None \<and> lastWrittenRef hm = Some wm
          \<and> valuesOf urlParams key = Listed (lw_encoded wm)"
  then show "useMultiUrlState_render key mparam urlParams raw (hm, e)
               = (Value (lw_decoded wm), (hm, e))"
    by (simp add: multi_render_hit)
next
  assume "pendingRef hm = None \<and> valuesOf urlParams key = Listed enc
     \<and> (\<forall>w. lastWrittenRef hm = Some w \<longrightarrow> lw_encoded w \<noteq> enc)"
  then show "useMultiUrlState_render key mparam urlParams raw (hm, e)
          = (Value (decode mparam enc), (hm\<lparr>lastWrittenRef := None\<rparr>, e))"
    by (simp add: multi_render_miss)
next
  show "valuesOf urlParams key = Listed enc \<longleftrightarrow>
        map_of urlParams key = Some enc
        \<or> (map_of urlParams key = None \<and> key \<notin> set objectPrototypeKeys \<and> enc = [])"
    by (simp add: valuesOf_Listed rec_get_map_of)
qed

text \<open>
  An instance with a codec that is not injective: both \<open>A\<close> and \<open>B\<close> are written as \<open>x\<close>,
  and \<open>x\<close> is read as \<open>B\<close>. With a record of a write of \<open>A\<close>, a render on \<^verbatim>\<open>/?y=x\<close> returns
  \<open>A\<close>, the recorded value; on \<^verbatim>\<open>/?y=m\<close> the record is dropped and the default is
  returned. For the repeated-value hook, a record for \<open>a, b\<close> misses on \<^verbatim>\<open>/?t=b&t=a\<close>.
\<close>

lemma causality_lookup_listed_example:
  "\<not> arraysEqual [''a'', ''b''] [''b'', ''a'']
   \<and> useUrlState_render ''y'' (codeParam 3 ''R'' [(''A'', ''x''), (''B'', ''x'')])
         (parse queryStrategy ''/?y=x'') (getRaw queryStrategy ''/?y=x'')
         (\<lparr>lastWrittenRef = Some \<lparr>lw_encoded = Some ''x'', lw_decoded = ''A''\<rparr>,
           pendingRef = None, cacheRef = None, debouncedWriteRef = None\<rparr>,
          browserAt ''/?y=x'' :: string UrlStateEnv)
       = (''A'',
          (\<lparr>lastWrittenRef = Some \<lparr>lw_encoded = Some ''x'', lw_decoded = ''A''\<rparr>,
            pendingRef = None, cacheRef = None, debouncedWriteRef = None\<rparr>,
           browserAt ''/?y=x''))
   \<and> fst (useUrlState_render ''y'' (codeParam 3 ''R'' [(''A'', ''x''), (''B'', ''x'')])
         (parse queryStrategy ''/?y=m'') (getRaw queryStrategy ''/?y=m'')
         (\<lparr>lastWrittenRef = Some \<lparr>lw_encoded = Some ''x'', lw_decoded = ''A''\<rparr>,
           pendingRef = None, cacheRef = None, debouncedWriteRef = None\<rparr>,
          browserAt ''/?y=m'' :: string UrlStateEnv)) = ''R''
   \<and> lastWrittenRef (fst (snd (useUrlState_render ''y''
         (codeParam 3 ''R'' [(''A'', ''x''), (''B'', ''x'')])
         (parse queryStrategy ''/?y=m'') (getRaw queryStrategy ''/?y=m'')
         (\<lparr>lastWrittenRef = Some \<lparr>lw_encoded = Some ''x'', lw_decoded = ''A''\<rparr>,
           pendingRef = None, cacheRef = None, debouncedWriteRef = None\<rparr>,
          browserAt ''/?y=m'' :: string UrlStateEnv)))) = None
   \<and> useMultiUrlState_render ''t'' (multiStringParam 4 []) (parse queryStrategy ''/?t=b&t=a'')
         (getRaw queryStrategy ''/?t=b&t=a'')
         (\<lparr>lastWrittenRef = Some \<lparr>lw_encoded = [''a'', ''b''], lw_decoded = [''a'', ''b'']\<rparr>,
           pendingRef = None, cacheRef = (), debouncedWriteRef = None\<rparr>,
          browserAt ''/?t=b&t=a'' :: string UrlStateEnv)
       = (Value [''b'', ''a''],
          (\<lparr>lastWrittenRef = None, pendingRef = None, cacheRef = (), debouncedWriteRef = None\<rparr>,
           browserAt ''/?t=b&t=a''))"
proof -
  define C where "C = codeParam 3 ''R'' [(''A'', ''x''), (''B'', ''x'')]"
  define W :: "(Encoded, string) lastWritten" where
    "W = \<lparr>lw_encoded = Some ''x'', lw_decoded = ''A''\<rparr>"
  define H :: "string UrlState" where
    "H = \<lparr>lastWrittenRef = Some W, pendingRef = None, cacheRef = None, debouncedWriteRef = None\<rparr>"
  define M where "M = multiStringParam 4 []"
  define Wm :: "(MultiEncoded, string list) lastWritten" where
    "Wm = \<lparr>lw_encoded = [''a'', ''b''], lw_decoded = [''a'', ''b'']\<rparr>"
  define Hm :: "string list MultiUrlState" where
    "Hm = \<lparr>lastWrittenRef = Some Wm, pendingRef = None, cacheRef = (), debouncedWriteRef = None\<rparr>"
  have x: "map_of (parse queryStrategy ''/?y=x'') ''y'' = Some [''x'']"
    and m: "map_of (parse queryStrategy ''/?y=m'') ''y'' = Some [''m'']"
    and t: "valuesOf (parse queryStrategy ''/?t=b&t=a'') ''t'' = Listed [''b'', ''a'']"
    by code_simp+
  have dm: "decode C (Some ''m'') = ''R''" and dt: "decode M [''b'', ''a''] = [''b'', ''a'']"
    unfolding C_def M_def by code_simp+
  have hit: "pendingRef H = None \<and> lastWrittenRef H = Some W
             \<and> lw_encoded W = (case map_of (parse queryStrategy ''/?y=x'') ''y'' of
                                 Some (x # xs) \<Rightarrow> Some x | _ \<Rightarrow> None)"
    by (simp add: H_def W_def x)
  have miss: "pendingRef H = None
              \<and> (\<forall>w. lastWrittenRef H = Some w
                     \<longrightarrow> lw_encoded w \<noteq> (case map_of (parse queryStrategy ''/?y=m'') ''y'' of
                                            Some (x # xs) \<Rightarrow> Some x | _ \<Rightarrow> None))"
    by (simp add: H_def W_def m)
  have cs: "cacheSound C H" by (simp add: cacheSound_def H_def)
  have missm: "pendingRef Hm = None
               \<and> valuesOf (parse queryStrategy ''/?t=b&t=a'') ''t'' = Listed [''b'', ''a'']
               \<and> (\<forall>w. lastWrittenRef Hm = Some w \<longrightarrow> lw_encoded w \<noteq> [''b'', ''a''])"
    by (simp add: Hm_def Wm_def t)
  from causality_lookup_listed [THEN conjunct1, of "[''a'', ''b'']" "[''b'', ''a'']"]
  have ne: "\<not> arraysEqual [''a'', ''b''] [''b'', ''a'']"
    by simp
  from causality_lookup_listed [of "[]::nat list" "[]" H W "parse queryStrategy ''/?y=x''" "''y''" C
      "getRaw queryStrategy ''/?y=x''" "browserAt ''/?y=x''"] hit
  have r1: "useUrlState_render ''y'' C (parse queryStrategy ''/?y=x'')
              (getRaw queryStrategy ''/?y=x'') (H, browserAt ''/?y=x'' :: string UrlStateEnv)
            = (lw_decoded W, (H, browserAt ''/?y=x''))"
    by blast
  from causality_lookup_listed [of "[]::nat list" "[]" H W "parse queryStrategy ''/?y=m''" "''y''" C
      "getRaw queryStrategy ''/?y=m''" "browserAt ''/?y=m'' :: string UrlStateEnv"
      Hm Wm M] miss cs
  have r2: "lastWrittenRef (fst (snd (useUrlState_render ''y'' C (parse queryStrategy ''/?y=m'')
              (getRaw queryStrategy ''/?y=m'') (H, browserAt ''/?y=m'' :: string UrlStateEnv))))
            = None"
    and r3: "fst (useUrlState_render ''y'' C (parse queryStrategy ''/?y=m'')
              (getRaw queryStrategy ''/?y=m'') (H, browserAt ''/?y=m'' :: string UrlStateEnv))
            = decode C (case map_of (parse queryStrategy ''/?y=m'') ''y'' of
                          Some (x # xs) \<Rightarrow> Some x | _ \<Rightarrow> None)"
    by blast+
  from causality_lookup_listed [of "[]::nat list" "[]" H W "parse queryStrategy ''/?t=b&t=a''" "''t''" C
      "getRaw queryStrategy ''/?t=b&t=a''" "browserAt ''/?t=b&t=a'' :: string UrlStateEnv"
      Hm Wm M "[''b'', ''a'']"] missm
  have r4: "useMultiUrlState_render ''t'' M (parse queryStrategy ''/?t=b&t=a'')
              (getRaw queryStrategy ''/?t=b&t=a'') (Hm, browserAt ''/?t=b&t=a'' :: string UrlStateEnv)
            = (Value (decode M [''b'', ''a'']),
               (Hm\<lparr>lastWrittenRef := None\<rparr>, browserAt ''/?t=b&t=a''))"
    by blast
  show ?thesis
    using ne r1 r2 r3 r4
    unfolding C_def [symmetric] M_def [symmetric]
    by (simp add: H_def W_def Hm_def Wm_def m dm dt)
qed

text \<open>
  Claim C5. The claim describes the lookup for every key: a hit only under equality of
  the recorded with the current encoded value, and on a miss a fresh decode of the current
  encoded value. That holds wherever the snapshot's entry for the key is a list
  (\<open>causality_lookup_listed\<close>). It fails in \<open>useMultiUrlState\<close> for a key that the location
  does not hold and that names a member of \<^verbatim>\<open>Object.prototype\<close>. The current encoded value
  of such a key is the empty list, which is what \<^verbatim>\<open>?? []\<close> is there to supply; but
  \<^verbatim>\<open>urlParams[key]\<close> finds the inherited member, so the hook compares the record against
  the member and hands the member to \<^verbatim>\<open>param.decode\<close>. On the snapshot of a server render
  (\<^verbatim>\<open>{}\<close>), with key \<^verbatim>\<open>constructor\<close> and \<^verbatim>\<open>multiStringParam()\<close>: the first render, and a render
  with a record for \<open>a\<close>, both return what \<^verbatim>\<open>decode\<close> makes of the function \<^verbatim>\<open>Object\<close>, where
  the decode of the current encoded value is the empty list, as it is returned for a key
  like \<^verbatim>\<open>tag\<close>. With key \<^verbatim>\<open>toString\<close> a record of the empty list hits, and a record for
  \<open>a\<close> misses. The batched hook \<open>useUrlStates\<close> looks its records up in a plain object
  too: for the configured key \<^verbatim>\<open>constructor\<close>, with no record at all, the lookup finds the
  inherited member, counts it as a hit and returns \<^verbatim>\<open>undefined\<close> where the decode of the
  absent value is the default.
\<close>

theorem causality_miss_inherited_key:
  "valuesOf getServerSnapshot ''constructor'' = Member ''constructor''
   \<and> useMultiUrlState_render ''constructor'' (multiStringParam 4 []) getServerSnapshot []
         (useMultiUrlState_mount 0, browserAt ''/'' :: MultiEncoded env)
       = (DecodedMember ''constructor'',
          (\<lparr>lastWrittenRef = None, pendingRef = None, cacheRef = (), debouncedWriteRef = None\<rparr>,
           browserAt ''/''))
   \<and> useMultiUrlState_render ''constructor'' (multiStringParam 4 []) getServerSnapshot []
         (\<lparr>lastWrittenRef = Some \<lparr>lw_encoded = [''a''], lw_decoded = [''a'']\<rparr>,
           pendingRef = None, cacheRef = (), debouncedWriteRef = None\<rparr>,
          browserAt ''/'' :: MultiEncoded env)
       = (DecodedMember ''constructor'',
          (\<lparr>lastWrittenRef = None, pendingRef = None, cacheRef = (), debouncedWriteRef = None\<rparr>,
           browserAt ''/''))
   \<and> useMultiUrlState_render ''tag'' (multiStringParam 4 []) getServerSnapshot []
         (\<lparr>lastWrittenRef = Some \<lparr>lw_encoded = [''a''], lw_decoded = [''a'']\<rparr>,
           pendingRef = None, cacheRef = (), debouncedWriteRef = None\<rparr>,
          browserAt ''/'' :: MultiEncoded env)
       = (Value (decode (multiStringParam 4 []) []),
          (\<lparr>lastWrittenRef = None, pendingRef = None, cacheRef = (), debouncedWriteRef = None\<rparr>,
           browserAt ''/''))
   \<and> decode (multiStringParam 4 []) [] = []
   \<and> useMultiUrlState_render ''toString'' (multiStringParam 4 []) getServerSnapshot []
         (\<lparr>lastWrittenRef = Some \<lparr>lw_encoded = [], lw_decoded = []\<rparr>,
           pendingRef = None, cacheRef = (), debouncedWriteRef = None\<rparr>,
          browserAt ''/'' :: MultiEncoded env)
       = (Value [],
          (\<lparr>lastWrittenRef = Some \<lparr>lw_encoded = [], lw_decoded = []\<rparr>,
            pendingRef = None, cacheRef = (), debouncedWriteRef = None\<rparr>,
           browserAt ''/''))
   \<and> fst (useMultiUrlState_render ''toString'' (multiStringParam 4 []) getServerSnapshot []
         (\<lparr>lastWrittenRef = Some \<lparr>lw_encoded = [''a''], lw_decoded = [''a'']\<rparr>,
           pendingRef = None, cacheRef = (), debouncedWriteRef = None\<rparr>,
          browserAt ''/'' :: MultiEncoded env))
       = DecodedMember ''toString''
   \<and> useUrlStates_render [(''constructor'', defStringParam 7 ''0'')] getServerSnapshot []
         (useUrlStates_mount 0, browserAt ''/'' :: string UrlStatesEnv)
       = ([(''constructor'', UndefinedValue)],
          (\<lparr>lastWrittenRef = [], pendingRef = None, cacheRef = (), debouncedWriteRef = None\<rparr>,
           browserAt ''/''))
   \<and> decode (defStringParam 7 ''0'') None = ''0''"
proof -
  have c: "valuesOf getServerSnapshot ''constructor'' = Member ''constructor''"
    and s: "valuesOf getServerSnapshot ''toString'' = Member ''toString''"
    and t: "valuesOf getServerSnapshot ''tag'' = Listed []"
    by (simp_all add: valuesOf_def getProperty_def getServerSnapshot_def objectPrototypeKeys_def)
  have l: "memberLength ''constructor'' = Some 1" "memberLength ''toString'' = Some 0"
    by (simp_all add: memberLength_def)
  have m: "useMultiUrlState_mount 0
             = (\<lparr>lastWrittenRef = None, pendingRef = None, cacheRef = (),
                 debouncedWriteRef = None\<rparr> :: string list MultiUrlState)"
    by (simp add: useMultiUrlState_mount_def installDebounce_def)
  have b: "useUrlStates_render [(''constructor'', defStringParam 7 ''0'')] getServerSnapshot []
             (useUrlStates_mount 0, browserAt ''/'' :: string UrlStatesEnv)
           = ([(''constructor'', UndefinedValue)],
              (\<lparr>lastWrittenRef = [], pendingRef = None, cacheRef = (), debouncedWriteRef = None\<rparr>,
               browserAt ''/''))"
    by (simp add: useUrlStates_render_def useUrlStates_mount_def installDebounce_def
          lookupWritten_def getProperty_def objectPrototypeKeys_def c l)
  have d: "decode (defStringParam 7 ''0'') None = ''0''"
    by (simp add: defStringParam_def)
  show ?thesis
    unfolding m
    by (simp add: c multi_render_member [OF _ c] multi_render_member [OF _ s]
          multi_render_miss [OF _ t] l multiStringParam_def b d)
qed

section \<open>Commits\<close>

lemma writeToUrl_window:
  "has_window e \<Longrightarrow>
   useUrlState_writeToUrl strategy key push v enc e
     = historyWrite push
         (buildUrl strategy (href e) (updateParam key enc (parse strategy (href e)))) e"
  by (simp add: useUrlState_writeToUrl_def Let_def)

lemma states_writeToUrl_window:
  "has_window e \<Longrightarrow>
   useUrlStates_writeToUrl strategy push updates e
     = historyWrite push
         (buildUrl strategy (href e) (applyUpdates updates (parse strategy (href e)))) e"
  by (simp add: useUrlStates_writeToUrl_def Let_def)

lemma href_historyWrite: "href (historyWrite push newUrl e) = newUrl"
  by (simp add: historyWrite_def)

lemma filter_updateParam_key:
  "filter (\<lambda>p. fst p \<noteq> key) (updateParam key enc r) = filter (\<lambda>p. fst p \<noteq> key) r"
  using filter_updateParam [of key "{key}" enc r] by simp

lemma strategy_wellFormed:
  "strategy = queryStrategy \<or> strategy = hashStrategy \<Longrightarrow> wellFormed (parse strategy location)"
  by (auto simp: queryStrategy_def hashStrategy_def wellFormed_parse)

lemma strategy_roundtrip:
  "strategy = queryStrategy \<or> strategy = hashStrategy \<Longrightarrow> wellFormed params \<Longrightarrow>
   parse strategy (buildUrl strategy base params) = params"
  using query_roundtrip hash_roundtrip by auto

lemma writeToUrl_parse:
  assumes "has_window e" and "strategy = queryStrategy \<or> strategy = hashStrategy"
  shows "parse strategy (href (useUrlState_writeToUrl strategy key push v enc e))
           = updateParam key enc (parse strategy (href e))"
proof -
  have "wellFormed (updateParam key enc (parse strategy (href e)))"
    using assms(2) by (intro wellFormed_updateParam strategy_wellFormed)
  with assms show ?thesis
    by (simp add: writeToUrl_window href_historyWrite strategy_roundtrip)
qed

lemma states_writeToUrl_parse:
  assumes "has_window e" and "strategy = queryStrategy \<or> strategy = hashStrategy"
  shows "parse strategy (href (useUrlStates_writeToUrl strategy push updates e))
           = applyUpdates updates (parse strategy (href e))"
proof -
  have "wellFormed (applyUpdates updates (parse strategy (href e)))"
    using assms(2) by (intro wellFormed_applyUpdates strategy_wellFormed)
  with assms show ?thesis
    by (simp add: states_writeToUrl_window href_historyWrite strategy_roundtrip)
qed

text \<open>
  Claim C6. Every commit reads the location afresh, at the moment it runs, changes only the
  keys of the update (a key whose new encoded value is absent is removed, any other is set
  to the one-element list), and hands the result to \<open>buildUrl\<close>. Every other key keeps its
  list of values, in the same order, and the untouched entries keep their relative order:
  this holds of the parsed state handed to \<open>buildUrl\<close> for every strategy, and of the new
  location itself for the query-string and the hash-fragment strategy, whatever the
  location was and whatever is written: parsing the location after the commit gives, for
  the keys outside the update, the entries that parsing the location before the commit
  gave, in the same order, and for the key written exactly the new value. Without a
  window nothing is committed. The commit made by a timeout is this same function,
  applied to the browser as it is when the timeout runs.
\<close>

theorem commit_frame:
  "(has_window e \<longrightarrow>
      useUrlState_writeToUrl strategy key push v enc e
        = historyWrite push
            (buildUrl strategy (href e) (updateParam key enc (parse strategy (href e)))) e
      \<and> rec_get (updateParam key enc (parse strategy (href e))) key
          = map_option (\<lambda>s. [s]) enc
      \<and> (\<forall>k. k \<noteq> key \<longrightarrow>
            rec_get (updateParam key enc (parse strategy (href e))) k
              = rec_get (parse strategy (href e)) k)
      \<and> filter (\<lambda>p. fst p \<noteq> key) (updateParam key enc (parse strategy (href e)))
          = filter (\<lambda>p. fst p \<noteq> key) (parse strategy (href e)))
   \<and> (has_window e \<longrightarrow>
      useUrlStates_writeToUrl strategy push updates e
        = historyWrite push
            (buildUrl strategy (href e) (applyUpdates updates (parse strategy (href e)))) e
      \<and> (\<forall>k. k \<notin> fst ` set updates \<longrightarrow>
            rec_get (applyUpdates updates (parse strategy (href e))) k
              = rec_get (parse strategy (href e)) k)
      \<and> filter (\<lambda>p. fst p \<notin> fst ` set updates) (applyUpdates updates (parse strategy (href e)))
          = filter (\<lambda>p. fst p \<notin> fst ` set updates) (parse strategy (href e)))
   \<and> (has_window e \<and> (strategy = queryStrategy \<or> strategy = hashStrategy) \<longrightarrow>
        map_of (parse strategy (href (useUrlState_writeToUrl strategy key push v enc e))) key
          = map_option (\<lambda>s. [s]) enc
        \<and> (\<forall>k. k \<noteq> key \<longrightarrow>
              map_of (parse strategy (href (useUrlState_writeToUrl strategy key push v enc e))) k
                = map_of (parse strategy (href e)) k)
        \<and> filter (\<lambda>p. fst p \<noteq> key)
            (parse strategy (href (useUrlState_writeToUrl strategy key push v enc e)))
            = filter (\<lambda>p. fst p \<noteq> key) (parse strategy (href e))
        \<and> (\<forall>k. k \<notin> fst ` set updates \<longrightarrow>
              map_of (parse strategy (href (useUrlStates_writeToUrl strategy push updates e))) k
                = map_of (parse strategy (href e)) k)
        \<and> filter (\<lambda>p. fst p \<notin> fst ` set updates)
            (parse strategy (href (useUrlStates_writeToUrl strategy push updates e)))
            = filter (\<lambda>p. fst p \<notin> fst ` set updates) (parse strategy (href e)))
   \<and> (\<not> has_window e \<longrightarrow>
        useUrlState_writeToUrl strategy key push v enc e = e
        \<and> useUrlStates_writeToUrl strategy push updates e = e)
   \<and> snd (useUrlState_timeout strategy key push t (h, e'))
       = useUrlState_writeToUrl strategy key push (fst (args t)) (snd (args t)) e'
   \<and> snd (useUrlStates_timeout strategy push ts (hs, es))
       = useUrlStates_writeToUrl strategy push (args ts) es"
proof -
  have a: "has_window e \<longrightarrow>
      useUrlState_writeToUrl strategy key push v enc e
        = historyWrite push
            (buildUrl strategy (href e) (updateParam key enc (parse strategy (href e)))) e
      \<and> rec_get (updateParam key enc (parse strategy (href e))) key
          = map_option (\<lambda>s. [s]) enc
      \<and> (\<forall>k. k \<noteq> key \<longrightarrow>
            rec_get (updateParam key enc (parse strategy (href e))) k
              = rec_get (parse strategy (href e)) k)
      \<and> filter (\<lambda>p. fst p \<noteq> key) (updateParam key enc (parse strategy (href e)))
          = filter (\<lambda>p. fst p \<noteq> key) (parse strategy (href e))"
    by (simp add: writeToUrl_window rec_get_updateParam filter_updateParam_key)
  have b: "has_window e \<longrightarrow>
      useUrlStates_writeToUrl strategy push updates e
        = historyWrite push
            (buildUrl strategy (href e) (applyUpdates updates (parse strategy (href e)))) e
      \<and> (\<forall>k. k \<notin> fst ` set updates \<longrightarrow>
            rec_get (applyUpdates updates (parse strategy (href e))) k
              = rec_get (parse strategy (href e)) k)
      \<and> filter (\<lambda>p. fst p \<notin> fst ` set updates) (applyUpdates updates (parse strategy (href e)))
          = filter (\<lambda>p. fst p \<notin> fst ` set updates) (parse strategy (href e))"
    by (simp add: states_writeToUrl_window rec_get_applyUpdates_other filter_applyUpdates)
  have c: "has_window e \<and> (strategy = queryStrategy \<or> strategy = hashStrategy) \<longrightarrow>
        map_of (parse strategy (href (useUrlState_writeToUrl strategy key push v enc e))) key
          = map_option (\<lambda>s. [s]) enc
        \<and> (\<forall>k. k \<noteq> key \<longrightarrow>
              map_of (parse strategy (href (useUrlState_writeToUrl strategy key push v enc e))) k
                = map_of (parse strategy (href e)) k)
        \<and> filter (\<lambda>p. fst p \<noteq> key)
            (parse strategy (href (useUrlState_writeToUrl strategy key push v enc e)))
            = filter (\<lambda>p. fst p \<noteq> key) (parse strategy (href e))
        \<and> (\<forall>k. k \<notin> fst ` set updates \<longrightarrow>
              map_of (parse strategy (href (useUrlStates_writeToUrl strategy push updates e))) k
                = map_of (parse strategy (href e)) k)
        \<and> filter (\<lambda>p. fst p \<notin> fst ` set updates)
            (parse strategy (href (useUrlStates_writeToUrl strategy push updates e)))
            = filter (\<lambda>p. fst p \<notin> fst ` set updates) (parse strategy (href e))"
  proof
    assume h: "has_window e \<and> (strategy = queryStrategy \<or> strategy = hashStrategy)"
    then have p1: "parse strategy (href (useUrlState_writeToUrl strategy key push v enc e))
                     = updateParam key enc (parse strategy (href e))"
      and p2: "parse strategy (href (useUrlStates_writeToUrl strategy push updates e))
                     = applyUpdates updates (parse strategy (href e))"
      by (simp_all add: writeToUrl_parse states_writeToUrl_parse)
    show "map_of (parse strategy (href (useUrlState_writeToUrl strategy key push v enc e))) key
          = map_option (\<lambda>s. [s]) enc
        \<and> (\<forall>k. k \<noteq> key \<longrightarrow>
              map_of (parse strategy (href (useUrlState_writeToUrl strategy key push v enc e))) k
                = map_of (parse strategy (href e)) k)
        \<and> filter (\<lambda>p. fst p \<noteq> key)
            (parse strategy (href (useUrlState_writeToUrl strategy key push v enc e)))
            = filter (\<lambda>p. fst p \<noteq> key) (parse strategy (href e))
        \<and> (\<forall>k. k \<notin> fst ` set updates \<longrightarrow>
              map_of (parse strategy (href (useUrlStates_writeToUrl strategy push updates e))) k
                = map_of (parse strategy (href e)) k)
        \<and> filter (\<lambda>p. fst p \<notin> fst ` set updates)
            (parse strategy (href (useUrlStates_writeToUrl strategy push updates e)))
            = filter (\<lambda>p. fst p \<notin> fst ` set updates) (parse strategy (href e))"
      unfolding p1 p2
      by (simp add: rec_get_map_of [symmetric] rec_get_updateParam filter_updateParam_key
            rec_get_applyUpdates_other filter_applyUpdates)
  qed
  have d: "\<not> has_window e \<longrightarrow>
        useUrlState_writeToUrl strategy key push v enc e = e
        \<and> useUrlStates_writeToUrl strategy push updates e = e"
    by (simp add: useUrlState_writeToUrl_def useUrlStates_writeToUrl_def)
  have t: "snd (useUrlState_timeout strategy key push t (h, e'))
             = useUrlState_writeToUrl strategy key push (fst (args t)) (snd (args t)) e'"
    "snd (useUrlStates_timeout strategy push ts (hs, es))
             = useUrlStates_writeToUrl strategy push (args ts) es"
    by (simp_all add: useUrlState_timeout_def useUrlStates_timeout_def Let_def)
  from a b c d t show ?thesis by blast
qed

text \<open>
  On \<^verbatim>\<open>/?e&n=hello&t=b&t=a#top\<close>, a write of a value that holds the separators themselves
  (\<^verbatim>\<open>a&t=zz\<close>) to key \<open>n\<close> leaves \<open>e\<close> and the two values of \<open>t\<close> as they were; a batched
  update that removes \<open>n\<close> and adds \<open>d\<close> does too. The same write with the hash-fragment
  strategy on \<^verbatim>\<open>/p?q=1#e&n=hello&t=b&t=a\<close>. Without a window nothing changes.
\<close>

theorem commit_frame_witness:
  "href (useUrlState_writeToUrl queryStrategy ''n'' False ''a&t=zz'' (Some ''a&t=zz'')
           (browserAt ''/?e&n=hello&t=b&t=a#top'' :: string UrlStateEnv))
     = ''/?e&n=a%26t%3Dzz&t=b&t=a#top''
   \<and> parse queryStrategy
        (href (useUrlState_writeToUrl queryStrategy ''n'' False ''a&t=zz'' (Some ''a&t=zz'')
                 (browserAt ''/?e&n=hello&t=b&t=a#top'' :: string UrlStateEnv)))
      = [(''e'', [[]]), (''n'', [''a&t=zz'']), (''t'', [''b'', ''a''])]
   \<and> filter (\<lambda>p. fst p \<noteq> ''n'')
        (parse queryStrategy
           (href (useUrlState_writeToUrl queryStrategy ''n'' False ''a&t=zz'' (Some ''a&t=zz'')
                    (browserAt ''/?e&n=hello&t=b&t=a#top'' :: string UrlStateEnv))))
      = [(''e'', [[]]), (''t'', [''b'', ''a''])]
   \<and> href (useUrlStates_writeToUrl queryStrategy False
             [(''n'', \<lparr>lw_encoded = None, lw_decoded = ''''\<rparr>),
              (''d'', \<lparr>lw_encoded = Some ''5'', lw_decoded = ''5''\<rparr>)]
             (browserAt ''/?e&n=hello&t=b&t=a#top'' :: string UrlStateEnv))
      = ''/?e&t=b&t=a&d=5#top''
   \<and> filter (\<lambda>p. fst p \<notin> {''n'', ''d''})
        (parse queryStrategy
           (href (useUrlStates_writeToUrl queryStrategy False
             [(''n'', \<lparr>lw_encoded = None, lw_decoded = ''''\<rparr>),
              (''d'', \<lparr>lw_encoded = Some ''5'', lw_decoded = ''5''\<rparr>)]
             (browserAt ''/?e&n=hello&t=b&t=a#top'' :: string UrlStateEnv))))
      = [(''e'', [[]]), (''t'', [''b'', ''a''])]
   \<and> filter (\<lambda>p. fst p \<noteq> ''n'')
        (parse hashStrategy
           (href (useUrlState_writeToUrl hashStrategy ''n'' False ''a&t=zz'' (Some ''a&t=zz'')
                    (browserAt ''/p?q=1#e&n=hello&t=b&t=a'' :: string UrlStateEnv))))
      = [(''e'', [[]]), (''t'', [''b'', ''a''])]
   \<and> useUrlState_writeToUrl queryStrategy ''n'' False ''zz'' (Some ''zz'')
        ((browserAt ''/?n=hello'' :: string UrlStateEnv)\<lparr>has_window := False\<rparr>)
      = (browserAt ''/?n=hello'')\<lparr>has_window := False\<rparr>"
proof -
  define L where "L = ''/?e&n=hello&t=b&t=a#top''"
  define K where "K = ''/p?q=1#e&n=hello&t=b&t=a''"
  define U :: "string written Record" where
    "U = [(''n'', \<lparr>lw_encoded = None, lw_decoded = ''''\<rparr>),
          (''d'', \<lparr>lw_encoded = Some ''5'', lw_decoded = ''5''\<rparr>)]"
  have b: "has_window (browserAt L :: string UrlStateEnv)" "href (browserAt L :: string UrlStateEnv) = L"
    "has_window (browserAt K :: string UrlStateEnv)" "href (browserAt K :: string UrlStateEnv) = K"
    by (simp_all add: browserAt_def)
  have nw: "\<not> has_window ((browserAt ''/?n=hello'' :: string UrlStateEnv)\<lparr>has_window := False\<rparr>)"
    by simp
  have p: "parse queryStrategy L = [(''e'', [[]]), (''n'', [''hello'']), (''t'', [''b'', ''a''])]"
    unfolding L_def by code_simp
  have ph: "parse hashStrategy K = [(''e'', [[]]), (''n'', [''hello'']), (''t'', [''b'', ''a''])]"
    unfolding K_def by code_simp
  have u1: "buildUrl queryStrategy L (updateParam ''n'' (Some ''a&t=zz'') (parse queryStrategy L))
              = ''/?e&n=a%26t%3Dzz&t=b&t=a#top''"
    unfolding L_def by code_simp
  have q1: "parse queryStrategy ''/?e&n=a%26t%3Dzz&t=b&t=a#top''
              = [(''e'', [[]]), (''n'', [''a&t=zz'']), (''t'', [''b'', ''a''])]"
    by code_simp
  have u2: "buildUrl queryStrategy L (applyUpdates U (parse queryStrategy L)) = ''/?e&t=b&t=a&d=5#top''"
    unfolding L_def U_def by code_simp
  have ks: "fst ` set U = {''n'', ''d''}"
    by (simp add: U_def)
  note T = commit_frame [of "browserAt L :: string UrlStateEnv" queryStrategy "''n''" False
      "''a&t=zz''" "Some ''a&t=zz''" U]
  note Th = commit_frame [of "browserAt K :: string UrlStateEnv" hashStrategy "''n''" False
      "''a&t=zz''" "Some ''a&t=zz''" U]
  note Tn = commit_frame [of "(browserAt ''/?n=hello'' :: string UrlStateEnv)\<lparr>has_window := False\<rparr>"
      queryStrategy "''n''" False "''zz''" "Some ''zz''" U]
  from T b(1) have w1: "useUrlState_writeToUrl queryStrategy ''n'' False ''a&t=zz'' (Some ''a&t=zz'')
                          (browserAt L :: string UrlStateEnv)
       = historyWrite False (buildUrl queryStrategy (href (browserAt L :: string UrlStateEnv))
           (updateParam ''n'' (Some ''a&t=zz'')
              (parse queryStrategy (href (browserAt L :: string UrlStateEnv)))))
           (browserAt L)"
    by blast
  from T b(1) have w2: "useUrlStates_writeToUrl queryStrategy False U (browserAt L :: string UrlStateEnv)
       = historyWrite False (buildUrl queryStrategy (href (browserAt L :: string UrlStateEnv))
           (applyUpdates U (parse queryStrategy (href (browserAt L :: string UrlStateEnv)))))
           (browserAt L)"
    by blast
  from T b(1) have f1: "filter (\<lambda>p. fst p \<noteq> ''n'')
             (parse queryStrategy (href (useUrlState_writeToUrl queryStrategy ''n'' False ''a&t=zz''
                 (Some ''a&t=zz'') (browserAt L :: string UrlStateEnv))))
             = filter (\<lambda>p. fst p \<noteq> ''n'') (parse queryStrategy (href (browserAt L :: string UrlStateEnv)))"
    by blast
  from T b(1) have f2: "filter (\<lambda>p. fst p \<notin> fst ` set U)
             (parse queryStrategy (href (useUrlStates_writeToUrl queryStrategy False U
                 (browserAt L :: string UrlStateEnv))))
             = filter (\<lambda>p. fst p \<notin> fst ` set U)
                 (parse queryStrategy (href (browserAt L :: string UrlStateEnv)))"
    by blast
  from Th b(3) have f3: "filter (\<lambda>p. fst p \<noteq> ''n'')
             (parse hashStrategy (href (useUrlState_writeToUrl hashStrategy ''n'' False ''a&t=zz''
                 (Some ''a&t=zz'') (browserAt K :: string UrlStateEnv))))
             = filter (\<lambda>p. fst p \<noteq> ''n'') (parse hashStrategy (href (browserAt K :: string UrlStateEnv)))"
    by blast
  from Tn nw have f4: "useUrlState_writeToUrl queryStrategy ''n'' False ''zz'' (Some ''zz'')
        ((browserAt ''/?n=hello'' :: string UrlStateEnv)\<lparr>has_window := False\<rparr>)
      = (browserAt ''/?n=hello'')\<lparr>has_window := False\<rparr>"
    by blast
  have r1: "href (useUrlState_writeToUrl queryStrategy ''n'' False ''a&t=zz'' (Some ''a&t=zz'')
                   (browserAt L :: string UrlStateEnv)) = ''/?e&n=a%26t%3Dzz&t=b&t=a#top''"
    by (simp add: w1 b href_historyWrite u1)
  have r3: "href (useUrlStates_writeToUrl queryStrategy False U (browserAt L :: string UrlStateEnv))
              = ''/?e&t=b&t=a&d=5#top''"
    by (simp add: w2 b href_historyWrite u2)
  show ?thesis
    using r1 r3 f1 f2 f3 f4
    unfolding L_def [symmetric] K_def [symmetric] U_def [symmetric]
    by (simp add: b p ph ks q1)
qed

section \<open>Repeated values under the single-value hook\<close>

lemma render_cong_encoded:
  "multiToSingle (valuesOf urlParams key) = multiToSingle (valuesOf urlParams' key) \<Longrightarrow>
   useUrlState_render key param urlParams raw st = useUrlState_render key param urlParams' raw st"
  by (simp add: useUrlState_render_def)

text \<open>
  Claim C10. \<open>useUrlState\<close> reads only the first value of a repeated key: a render on a
  snapshot whose list for the key is \<open>x, ...\<close> is the render on the snapshot whose list is
  just \<open>x\<close>. A write through it replaces the whole list of the key by the one-element list
  of the new encoded value, or removes the key when the encoded value is absent, whatever
  values the key had before; when parsing the built URL gives back the parameters it was
  built from, these are the values of the key in the new location. What the hook reads
  for the key after the write is the encoded value written. (An inherited member that the
  lookup finds for a key the snapshot does not hold reads as absent.)
\<close>

theorem single_hook_collapses:
  "multiToSingle (Listed (x # xs)) = Some x
   \<and> multiToSingle (Listed []) = None
   \<and> multiToSingle (Member k) = None
   \<and> (valuesOf urlParams key = Listed (x # xs) \<and> valuesOf urlParams' key = Listed [x] \<longrightarrow>
        useUrlState_render key param urlParams raw st
          = useUrlState_render key param urlParams' raw st)
   \<and> (has_window e \<longrightarrow>
        href (useUrlState_writeToUrl strategy key push v enc e)
          = buildUrl strategy (href e) (updateParam key enc (parse strategy (href e)))
        \<and> rec_get (updateParam key enc (parse strategy (href e))) key
            = (case enc of None \<Rightarrow> None | Some s \<Rightarrow> Some [s])
        \<and> (case rec_get (updateParam key enc (parse strategy (href e))) key of
              None \<Rightarrow> [] | Some m \<Rightarrow> m) = singleToMulti enc
        \<and> multiToSingle (valuesOf (updateParam key enc (parse strategy (href e))) key) = enc
        \<and> (parse strategy
              (buildUrl strategy (href e) (updateParam key enc (parse strategy (href e))))
              = updateParam key enc (parse strategy (href e)) \<longrightarrow>
             (case rec_get (parse strategy (href (useUrlState_writeToUrl strategy key push v enc e)))
                     key of
                None \<Rightarrow> [] | Some m \<Rightarrow> m) = singleToMulti enc
             \<and> multiToSingle
                 (valuesOf (parse strategy (href (useUrlState_writeToUrl strategy key push v enc e)))
                    key) = enc))"
proof (intro conjI impI)
  show "multiToSingle (Listed (x # xs)) = Some x" "multiToSingle (Listed []) = None"
    "multiToSingle (Member k) = None"
    by simp_all
next
  assume "valuesOf urlParams key = Listed (x # xs) \<and> valuesOf urlParams' key = Listed [x]"
  then have "multiToSingle (valuesOf urlParams key) = multiToSingle (valuesOf urlParams' key)"
    by simp
  then show "useUrlState_render key param urlParams raw st
               = useUrlState_render key param urlParams' raw st"
    by (rule render_cong_encoded)
next
  assume w: "has_window e"
  show h: "href (useUrlState_writeToUrl strategy key push v enc e)
          = buildUrl strategy (href e) (updateParam key enc (parse strategy (href e)))"
    using w by (simp add: writeToUrl_window href_historyWrite)
  show "rec_get (updateParam key enc (parse strategy (href e))) key
            = (case enc of None \<Rightarrow> None | Some s \<Rightarrow> Some [s])"
    by (cases enc) (simp_all add: rec_get_updateParam)
  show o: "(case rec_get (updateParam key enc (parse strategy (href e))) key of
              None \<Rightarrow> [] | Some m \<Rightarrow> m) = singleToMulti enc"
    by (cases enc) (simp_all add: rec_get_updateParam singleToMulti_def)
  show m: "multiToSingle (valuesOf (updateParam key enc (parse strategy (href e))) key) = enc"
    by (rule read_updateParam)
  show "(case rec_get (parse strategy (href (useUrlState_writeToUrl strategy key push v enc e)))
                key of
           None \<Rightarrow> [] | Some m \<Rightarrow> m) = singleToMulti enc"
    if "parse strategy
              (buildUrl strategy (href e) (updateParam key enc (parse strategy (href e))))
              = updateParam key enc (parse strategy (href e))"
    using that o by (simp add: h)
  show "multiToSingle
          (valuesOf (parse strategy (href (useUrlState_writeToUrl strategy key push v enc e)))
             key) = enc"
    if "parse strategy
              (buildUrl strategy (href e) (updateParam key enc (parse strategy (href e))))
              = updateParam key enc (parse strategy (href e))"
    using that m by (simp add: h)
qed

text \<open>
  On \<^verbatim>\<open>/?t=a&t=b&t=c\<close> the hook for \<open>t\<close> reads \<open>a\<close>, as it does on \<^verbatim>\<open>/?t=a\<close>; writing \<open>z\<close>
  gives \<^verbatim>\<open>/?t=z\<close>, and writing the default removes the key.
\<close>

theorem single_hook_collapses_witness:
  "fst (useUrlState_render ''t'' (defStringParam 7 ''0'') (parse queryStrategy ''/?t=a&t=b&t=c'')
          (getRaw queryStrategy ''/?t=a&t=b&t=c'')
          (useUrlState_mount 0, browserAt ''/?t=a&t=b&t=c'' :: string UrlStateEnv)) = ''a''
   \<and> href (useUrlState_writeToUrl queryStrategy ''t'' False ''z'' (Some ''z'')
             (browserAt ''/?t=a&t=b&t=c'' :: string UrlStateEnv)) = ''/?t=z''
   \<and> valuesOf (parse queryStrategy
        (href (useUrlState_writeToUrl queryStrategy ''t'' False ''z'' (Some ''z'')
             (browserAt ''/?t=a&t=b&t=c'' :: string UrlStateEnv)))) ''t'' = Listed [''z'']
   \<and> href (useUrlState_writeToUrl queryStrategy ''t'' False ''0'' None
             (browserAt ''/?t=a&t=b&t=c'' :: string UrlStateEnv)) = ''/''"
proof -
  define L where "L = ''/?t=a&t=b&t=c''"
  define B :: "string UrlStateEnv" where "B = browserAt L"
  define P where "P = defStringParam 7 ''0''"
  have b: "has_window B" "href B = L"
    by (simp_all add: B_def browserAt_def)
  have v: "valuesOf (parse queryStrategy L) ''t'' = Listed (''a'' # [''b'', ''c''])
           \<and> valuesOf (parse queryStrategy ''/?t=a'') ''t'' = Listed [''a'']"
    unfolding L_def by code_simp
  have one: "fst (useUrlState_render ''t'' P (parse queryStrategy ''/?t=a'')
                    (getRaw queryStrategy L) (useUrlState_mount 0, B)) = ''a''"
    unfolding L_def P_def B_def by code_simp
  have u: "buildUrl queryStrategy L (updateParam ''t'' (Some ''z'') (parse queryStrategy L)) = ''/?t=z''"
    "buildUrl queryStrategy L (updateParam ''t'' None (parse queryStrategy L)) = ''/''"
    unfolding L_def by code_simp+
  have rt: "parse queryStrategy ''/?t=z'' = updateParam ''t'' (Some ''z'') (parse queryStrategy L)"
    unfolding L_def by code_simp
  note T = single_hook_collapses [of "''a''" "[''b'', ''c'']" "''t''" "parse queryStrategy L" "''t''"
      "parse queryStrategy ''/?t=a''" P "getRaw queryStrategy L" "(useUrlState_mount 0, B)"
      B queryStrategy False "''z''" "Some ''z''"]
  note T0 = single_hook_collapses [of "''a''" "[''b'', ''c'']" "''t''" "parse queryStrategy L" "''t''"
      "parse queryStrategy ''/?t=a''" P "getRaw queryStrategy L" "(useUrlState_mount 0, B)"
      B queryStrategy False "''0''" None]
  from T v have r1: "useUrlState_render ''t'' P (parse queryStrategy L) (getRaw queryStrategy L)
                       (useUrlState_mount 0, B)
                     = useUrlState_render ''t'' P (parse queryStrategy ''/?t=a'')
                         (getRaw queryStrategy L) (useUrlState_mount 0, B)"
    by blast
  from T b(1) have r2: "href (useUrlState_writeToUrl queryStrategy ''t'' False ''z'' (Some ''z'') B)
          = buildUrl queryStrategy (href B) (updateParam ''t'' (Some ''z'') (parse queryStrategy (href B)))"
    by blast
  from T b(1) have r3: "parse queryStrategy
              (buildUrl queryStrategy (href B) (updateParam ''t'' (Some ''z'') (parse queryStrategy (href B))))
              = updateParam ''t'' (Some ''z'') (parse queryStrategy (href B)) \<longrightarrow>
             (case rec_get (parse queryStrategy (href (useUrlState_writeToUrl queryStrategy ''t''
                False ''z'' (Some ''z'') B))) ''t'' of None \<Rightarrow> [] | Some m \<Rightarrow> m)
               = singleToMulti (Some ''z'')"
    by blast
  from T0 b(1) have r4: "href (useUrlState_writeToUrl queryStrategy ''t'' False ''0'' None B)
          = buildUrl queryStrategy (href B) (updateParam ''t'' None (parse queryStrategy (href B)))"
    by blast
  have "(case rec_get (parse queryStrategy (href (useUrlState_writeToUrl queryStrategy ''t''
                False ''z'' (Some ''z'') B))) ''t'' of None \<Rightarrow> [] | Some m \<Rightarrow> m) = [''z'']"
    using r3 rt by (simp add: b u singleToMulti_def)
  then have s3: "valuesOf (parse queryStrategy (href (useUrlState_writeToUrl queryStrategy ''t''
                False ''z'' (Some ''z'') B))) ''t'' = Listed [''z'']"
    by (simp add: valuesOf_Listed split: option.splits)
  show ?thesis
    using r1 one r2 s3 r4
    unfolding P_def [symmetric] L_def [symmetric] B_def [symmetric]
    by (simp add: b u)
qed

section \<open>Batched updates\<close>

lemma getProperty_cases:
  "rec_get params k = Some p \<Longrightarrow> getProperty params k = Own p"
  "inheritedOnly params k \<Longrightarrow> getProperty params k = Inherited"
  "rec_get params k = None \<Longrightarrow> \<not> inheritedOnly params k \<Longrightarrow> getProperty params k = Undefined"
  by (auto simp: getProperty_def inheritedOnly_def)

lemma encodeUpdates_skip:
  "list_all (\<lambda>u. \<not> inheritedOnly params (fst u)) updates \<Longrightarrow>
   encodeUpdates params updates acc
     = encodeUpdates params (filter (\<lambda>u. rec_get params (fst u) \<noteq> None) updates) acc"
proof (induction updates arbitrary: acc)
  case Nil
  then show ?case by simp
next
  case (Cons u updates)
  obtain k v where u: "u = (k, v)" by (cases u)
  show ?case
  proof (cases "rec_get params k")
    case None
    with Cons u show ?thesis by (simp add: getProperty_cases)
  next
    case (Some p)
    with Cons u show ?thesis by (simp add: getProperty_cases Let_def)
  qed
qed

lemma encodeMultiUpdates_skip:
  "list_all (\<lambda>u. \<not> inheritedOnly params (fst u)) updates \<Longrightarrow>
   encodeMultiUpdates params updates acc
     = encodeMultiUpdates params (filter (\<lambda>u. rec_get params (fst u) \<noteq> None) updates) acc"
proof (induction updates arbitrary: acc)
  case Nil
  then show ?case by simp
next
  case (Cons u updates)
  obtain k v where u: "u = (k, v)" by (cases u)
  show ?case
  proof (cases "rec_get params k")
    case None
    with Cons u show ?thesis by (simp add: getProperty_cases)
  next
    case (Some p)
    with Cons u show ?thesis by (simp add: getProperty_cases Let_def)
  qed
qed

lemma encodeUpdates_no_throw:
  "list_all (\<lambda>u. \<not> inheritedOnly params (fst u)) updates \<Longrightarrow>
   fst (encodeUpdates params updates acc) = None"
proof (induction updates arbitrary: acc)
  case Nil
  then show ?case by simp
next
  case (Cons u updates)
  obtain k v where u: "u = (k, v)" by (cases u)
  show ?case
  proof (cases "rec_get params k")
    case None
    with Cons u show ?thesis by (simp add: getProperty_cases)
  next
    case (Some p)
    with Cons u show ?thesis by (simp add: getProperty_cases Let_def)
  qed
qed

lemma encodeMultiUpdates_no_throw:
  "list_all (\<lambda>u. \<not> inheritedOnly params (fst u)) updates \<Longrightarrow>
   fst (encodeMultiUpdates params updates acc) = None"
proof (induction updates arbitrary: acc)
  case Nil
  then show ?case by simp
next
  case (Cons u updates)
  obtain k v where u: "u = (k, v)" by (cases u)
  show ?case
  proof (cases "rec_get params k")
    case None
    with Cons u show ?thesis by (simp add: getProperty_cases)
  next
    case (Some p)
    with Cons u show ?thesis by (simp add: getProperty_cases Let_def)
  qed
qed

lemma encodeUpdates_throws:
  "\<not> list_all (\<lambda>u. \<not> inheritedOnly params (fst u)) updates \<Longrightarrow>
   fst (encodeUpdates params updates acc) = Some (Thrown ''TypeError'')"
proof (induction updates arbitrary: acc)
  case Nil
  then show ?case by simp
next
  case (Cons u updates)
  obtain k v where u: "u = (k, v)" by (cases u)
  show ?case
  proof (cases "inheritedOnly params k")
    case True
    with u show ?thesis by (simp add: getProperty_cases)
  next
    case False
    with Cons u show ?thesis
      by (cases "rec_get params k") (simp_all add: getProperty_cases Let_def)
  qed
qed

lemma encodeMultiUpdates_throws:
  "\<not> list_all (\<lambda>u. \<not> inheritedOnly params (fst u)) updates \<Longrightarrow>
   fst (encodeMultiUpdates params updates acc) = Some (Thrown ''TypeError'')"
proof (induction updates arbitrary: acc)
  case Nil
  then show ?case by simp
next
  case (Cons u updates)
  obtain k v where u: "u = (k, v)" by (cases u)
  show ?case
  proof (cases "inheritedOnly params k")
    case True
    with u show ?thesis by (simp add: getProperty_cases)
  next
    case False
    with Cons u show ?thesis
      by (cases "rec_get params k") (simp_all add: getProperty_cases Let_def)
  qed
qed

lemma encodeUpdates_unconfigured:
  "rec_get params k = None \<Longrightarrow>
   rec_get (fst (snd (encodeUpdates params updates acc))) k = rec_get (fst acc) k
   \<and> rec_get (snd (snd (encodeUpdates params updates acc))) k = rec_get (snd acc) k"
proof (induction updates arbitrary: acc)
  case Nil
  then show ?case by simp
next
  case (Cons u updates)
  obtain k' v where u: "u = (k', v)" by (cases u)
  show ?case
  proof (cases "getProperty params k'")
    case Undefined
    with Cons u show ?thesis by simp
  next
    case Inherited
    with u show ?thesis by simp
  next
    case (Own p)
    then have "rec_get params k' = Some p"
      by (auto simp: getProperty_def split: option.splits if_splits)
    with Cons.prems have "k' \<noteq> k" by auto
    with Cons u Own show ?thesis by (simp add: Let_def rec_get_set)
  qed
qed

lemma encodeMultiUpdates_unconfigured:
  "rec_get params k = None \<Longrightarrow>
   rec_get (fst (snd (encodeMultiUpdates params updates acc))) k = rec_get (fst acc) k
   \<and> rec_get (snd (snd (encodeMultiUpdates params updates acc))) k = rec_get (snd acc) k"
proof (induction updates arbitrary: acc)
  case Nil
  then show ?case by simp
next
  case (Cons u updates)
  obtain k' v where u: "u = (k', v)" by (cases u)
  show ?case
  proof (cases "getProperty params k'")
    case Undefined
    with Cons u show ?thesis by simp
  next
    case Inherited
    with u show ?thesis by simp
  next
    case (Own p)
    then have "rec_get params k' = Some p"
      by (auto simp: getProperty_def split: option.splits if_splits)
    with Cons.prems have "k' \<noteq> k" by auto
    with Cons u Own show ?thesis by (simp add: Let_def rec_get_set)
  qed
qed

lemma encodeUpdates_other:
  "k \<notin> fst ` set updates \<Longrightarrow>
   rec_get (fst (snd (encodeUpdates params updates acc))) k = rec_get (fst acc) k
   \<and> rec_get (snd (snd (encodeUpdates params updates acc))) k = rec_get (snd acc) k"
  by (induction updates arbitrary: acc) (auto simp: Let_def rec_get_set split: property.splits)

lemma encodeMultiUpdates_other:
  "k \<notin> fst ` set updates \<Longrightarrow>
   rec_get (fst (snd (encodeMultiUpdates params updates acc))) k = rec_get (fst acc) k
   \<and> rec_get (snd (snd (encodeMultiUpdates params updates acc))) k = rec_get (snd acc) k"
  by (induction updates arbitrary: acc) (auto simp: Let_def rec_get_set split: property.splits)

lemma encodeUpdates_configured:
  "list_all (\<lambda>u. \<not> inheritedOnly params (fst u)) updates \<Longrightarrow>
   distinct (map fst updates) \<Longrightarrow> rec_get updates k = Some v \<Longrightarrow> rec_get params k = Some p \<Longrightarrow>
   rec_get (fst (snd (encodeUpdates params updates acc))) k
     = Some \<lparr>lw_encoded = encode p v, lw_decoded = v\<rparr>
   \<and> rec_get (snd (snd (encodeUpdates params updates acc))) k
     = Some \<lparr>lw_encoded = encode p v, lw_decoded = v\<rparr>"
proof (induction updates arbitrary: acc)
  case Nil
  then show ?case by simp
next
  case (Cons u updates)
  obtain k' v' where u: "u = (k', v')" by (cases u)
  show ?case
  proof (cases "k' = k")
    case True
    with Cons.prems u have "v' = v" and "k \<notin> fst ` set updates" by auto
    with Cons.prems u True show ?thesis
      by (simp add: Let_def encodeUpdates_other rec_get_set getProperty_cases)
  next
    case False
    with Cons u show ?thesis
      by (cases "rec_get params k'") (simp_all add: Let_def getProperty_cases)
  qed
qed

lemma encodeMultiUpdates_configured:
  "list_all (\<lambda>u. \<not> inheritedOnly params (fst u)) updates \<Longrightarrow>
   distinct (map fst updates) \<Longrightarrow> rec_get updates k = Some v \<Longrightarrow> rec_get params k = Some p \<Longrightarrow>
   rec_get (fst (snd (encodeMultiUpdates params updates acc))) k = Some (encode p v)
   \<and> rec_get (snd (snd (encodeMultiUpdates params updates acc))) k
     = Some \<lparr>lw_encoded = encode p v, lw_decoded = v\<rparr>"
proof (induction updates arbitrary: acc)
  case Nil
  then show ?case by simp
next
  case (Cons u updates)
  obtain k' v' where u: "u = (k', v')" by (cases u)
  show ?case
  proof (cases "k' = k")
    case True
    with Cons.prems u have "v' = v" and "k \<notin> fst ` set updates" by auto
    with Cons.prems u True show ?thesis
      by (simp add: Let_def encodeMultiUpdates_other rec_get_set getProperty_cases)
  next
    case False
    with Cons u show ?thesis
      by (cases "rec_get params k'") (simp_all add: Let_def getProperty_cases)
  qed
qed

lemma encodeUpdates_distinct:
  "distinct (map fst (fst acc)) \<Longrightarrow>
   distinct (map fst (fst (snd (encodeUpdates params updates acc))))"
  by (induction updates arbitrary: acc)
     (auto simp: Let_def distinct_rec_set split: property.splits)

lemma encodeMultiUpdates_distinct:
  "distinct (map fst (fst acc)) \<Longrightarrow>
   distinct (map fst (fst (snd (encodeMultiUpdates params updates acc))))"
  by (induction updates arbitrary: acc)
     (auto simp: Let_def distinct_rec_set split: property.splits)

lemma rec_get_applyMultiUpdates_other:
  "k \<notin> fst ` set updates \<Longrightarrow> rec_get (applyMultiUpdates updates r) k = rec_get r k"
  by (induction updates arbitrary: r) (auto simp: rec_get_set rec_get_delete)

lemma rec_get_applyMultiUpdates_last:
  "distinct (map fst updates) \<Longrightarrow> rec_get updates k = Some enc \<Longrightarrow>
   rec_get (applyMultiUpdates updates r) k = (if length enc = 0 then None else Some enc)"
proof (induction updates arbitrary: r)
  case Nil
  then show ?case by simp
next
  case (Cons a updates)
  obtain k' u' where a: "a = (k', u')" by (cases a)
  show ?case
  proof (cases "k' = k")
    case True
    with Cons.prems a have "u' = enc" and "k \<notin> fst ` set updates" by auto
    then show ?thesis
      using a True by (simp add: rec_get_applyMultiUpdates_other rec_get_set rec_get_delete)
  next
    case False
    with Cons a show ?thesis by simp
  qed
qed

lemma setValues_thrown:
  "fst (encodeUpdates params updates ([], lastWrittenRef h)) = Some ex \<Longrightarrow>
   useUrlStates_setValues strategy push ms params updates (h, e)
     = (Some ex,
        (h\<lparr>lastWrittenRef := snd (snd (encodeUpdates params updates ([], lastWrittenRef h)))\<rparr>, e))"
  by (simp add: useUrlStates_setValues_def Let_def case_prod_beta)

lemma multi_setValues_thrown:
  "fst (encodeMultiUpdates params updates ([], lastWrittenRef h)) = Some ex \<Longrightarrow>
   useMultiUrlStates_setValues strategy push ms params updates (h, e)
     = (Some ex,
        (h\<lparr>lastWrittenRef := snd (snd (encodeMultiUpdates params updates ([], lastWrittenRef h)))\<rparr>,
         e))"
  by (simp add: useMultiUrlStates_setValues_def Let_def case_prod_beta)

lemma setValues_direct:
  "fst (encodeUpdates params updates ([], lastWrittenRef h)) = None \<Longrightarrow>
   debouncedWriteRef h = None \<Longrightarrow>
   useUrlStates_setValues strategy push ms params updates (h, e)
     = (None,
        (h\<lparr>lastWrittenRef := snd (snd (encodeUpdates params updates ([], lastWrittenRef h)))\<rparr>,
         useUrlStates_writeToUrl strategy push
           (fst (snd (encodeUpdates params updates ([], lastWrittenRef h)))) e))"
  by (simp add: useUrlStates_setValues_def Let_def case_prod_beta)

lemma multi_setValues_direct:
  "fst (encodeMultiUpdates params updates ([], lastWrittenRef h)) = None \<Longrightarrow>
   debouncedWriteRef h = None \<Longrightarrow>
   useMultiUrlStates_setValues strategy push ms params updates (h, e)
     = (None,
        (h\<lparr>lastWrittenRef := snd (snd (encodeMultiUpdates params updates ([], lastWrittenRef h)))\<rparr>,
         useMultiUrlStates_writeToUrl strategy push
           (fst (snd (encodeMultiUpdates params updates ([], lastWrittenRef h)))) e))"
  by (simp add: useMultiUrlStates_setValues_def Let_def case_prod_beta)

lemma setValues_debounced:
  assumes "fst (encodeUpdates params updates ([], lastWrittenRef h)) = None"
    and "timerInv (h, e)" "debouncedWriteRef h = Some t"
  shows "map args (timeouts (snd (snd (useUrlStates_setValues strategy push ms params updates (h, e)))))
           = [fst (snd (encodeUpdates params updates ([], lastWrittenRef h)))]"
    and "lastWrittenRef (fst (snd (useUrlStates_setValues strategy push ms params updates (h, e))))
           = snd (snd (encodeUpdates params updates ([], lastWrittenRef h)))"
proof -
  let ?w = "snd (snd (encodeUpdates params updates ([], lastWrittenRef h)))"
  have inv: "timerInv (h\<lparr>lastWrittenRef := ?w\<rparr>, e)"
    using assms(2) by (simp add: timerInv_iff)
  have t: "debouncedWriteRef (h\<lparr>lastWrittenRef := ?w\<rparr>) = Some t"
    using assms(3) by simp
  note d = debounced_armed [OF inv t, of ms "fst (snd (encodeUpdates params updates ([], lastWrittenRef h)))"]
  show "map args (timeouts (snd (snd (useUrlStates_setValues strategy push ms params updates (h, e)))))
           = [fst (snd (encodeUpdates params updates ([], lastWrittenRef h)))]"
    using assms(1,3) d by (simp add: useUrlStates_setValues_def Let_def case_prod_beta)
  show "lastWrittenRef (fst (snd (useUrlStates_setValues strategy push ms params updates (h, e))))
           = ?w"
    using assms(1,3) d by (simp add: useUrlStates_setValues_def Let_def case_prod_beta)
qed


text \<open>
  What \<open>setValues\<close> does when no key of the update names an inherited member of \<open>params\<close>
  without being configured: an entry whose key has no codec is passed over. The encoded
  updates and the causality records are those of the update without such entries, they
  have no entry for such a key, its causality record stays as it was and so do its values
  in the location; no exception is raised; the configured keys are encoded, recorded and
  committed, at once or as the argument of the scheduled timeout.
\<close>

lemma own_unconfigured_keys_skipped:
  assumes ok: "list_all (\<lambda>u. \<not> inheritedOnly params (fst u)) updates"
  shows
    "fst (encodeUpdates params updates acc) = None
     \<and> encodeUpdates params updates acc
       = encodeUpdates params (filter (\<lambda>u. rec_get params (fst u) \<noteq> None) updates) acc
     \<and> (rec_get params k = None \<longrightarrow>
          rec_get (fst (snd (encodeUpdates params updates ([], written)))) k = None
          \<and> rec_get (snd (snd (encodeUpdates params updates ([], written)))) k = rec_get written k
          \<and> rec_get (applyUpdates (fst (snd (encodeUpdates params updates ([], written)))) current) k
              = rec_get current k)
     \<and> (distinct (map fst updates) \<and> rec_get updates c = Some v \<and> rec_get params c = Some p \<longrightarrow>
          rec_get (fst (snd (encodeUpdates params updates ([], written)))) c
            = Some \<lparr>lw_encoded = encode p v, lw_decoded = v\<rparr>
          \<and> rec_get (snd (snd (encodeUpdates params updates ([], written)))) c
            = Some \<lparr>lw_encoded = encode p v, lw_decoded = v\<rparr>
          \<and> rec_get (applyUpdates (fst (snd (encodeUpdates params updates ([], written)))) current) c
              = map_option (\<lambda>s. [s]) (encode p v))
     \<and> (debouncedWriteRef h = None \<longrightarrow>
          useUrlStates_setValues strategy push debounceMs params updates (h, e)
            = (None,
               (h\<lparr>lastWrittenRef := snd (snd (encodeUpdates params updates ([], lastWrittenRef h)))\<rparr>,
                useUrlStates_writeToUrl strategy push
                  (fst (snd (encodeUpdates params updates ([], lastWrittenRef h)))) e))
          \<and> useUrlStates_setValues strategy push debounceMs params updates (h, e)
            = useUrlStates_setValues strategy push debounceMs params
                (filter (\<lambda>u. rec_get params (fst u) \<noteq> None) updates) (h, e))
     \<and> (timerInv (h, e) \<and> debouncedWriteRef h \<noteq> None \<longrightarrow>
          fst (useUrlStates_setValues strategy push debounceMs params updates (h, e)) = None
          \<and> map args (timeouts (snd (snd (useUrlStates_setValues strategy push debounceMs
                                            params updates (h, e)))))
            = [fst (snd (encodeUpdates params updates ([], lastWrittenRef h)))]
          \<and> lastWrittenRef (fst (snd (useUrlStates_setValues strategy push debounceMs
                                        params updates (h, e))))
            = snd (snd (encodeUpdates params updates ([], lastWrittenRef h))))"
proof (intro conjI impI)
  show nt: "fst (encodeUpdates params updates acc) = None"
    using ok by (rule encodeUpdates_no_throw)
  show "encodeUpdates params updates acc
       = encodeUpdates params (filter (\<lambda>u. rec_get params (fst u) \<noteq> None) updates) acc"
    using ok by (rule encodeUpdates_skip)
next
  assume n: "rec_get params k = None"
  show a: "rec_get (fst (snd (encodeUpdates params updates ([], written)))) k = None"
    using encodeUpdates_unconfigured [OF n, of updates "([], written)"] by simp
  show "rec_get (snd (snd (encodeUpdates params updates ([], written)))) k = rec_get written k"
    using encodeUpdates_unconfigured [OF n, of updates "([], written)"] by simp
  from a have "k \<notin> fst ` set (fst (snd (encodeUpdates params updates ([], written))))"
    by (simp add: rec_get_None_keys)
  then show "rec_get (applyUpdates (fst (snd (encodeUpdates params updates ([], written)))) current) k
            = rec_get current k"
    by (rule rec_get_applyUpdates_other)
next
  assume a: "distinct (map fst updates) \<and> rec_get updates c = Some v \<and> rec_get params c = Some p"
  then have d: "distinct (map fst updates)" and u: "rec_get updates c = Some v"
    and p: "rec_get params c = Some p" by simp_all
  note E = encodeUpdates_configured [OF ok d u p, of "([], written)"]
  show f: "rec_get (fst (snd (encodeUpdates params updates ([], written)))) c
          = Some \<lparr>lw_encoded = encode p v, lw_decoded = v\<rparr>"
    using E by simp
  show "rec_get (snd (snd (encodeUpdates params updates ([], written)))) c
          = Some \<lparr>lw_encoded = encode p v, lw_decoded = v\<rparr>"
    using E by simp
  have "distinct (map fst (fst (snd (encodeUpdates params updates ([], written)))))"
    by (rule encodeUpdates_distinct) simp
  from rec_get_applyUpdates_last [OF this f, of current]
  show "rec_get (applyUpdates (fst (snd (encodeUpdates params updates ([], written)))) current) c
            = map_option (\<lambda>s. [s]) (encode p v)"
    by simp
next
  assume n: "debouncedWriteRef h = None"
  have nt: "fst (encodeUpdates params updates ([], lastWrittenRef h)) = None"
    using ok by (rule encodeUpdates_no_throw)
  have ok': "list_all (\<lambda>u. \<not> inheritedOnly params (fst u))
               (filter (\<lambda>u. rec_get params (fst u) \<noteq> None) updates)"
    using ok by (simp add: list_all_iff)
  have nt': "fst (encodeUpdates params (filter (\<lambda>u. rec_get params (fst u) \<noteq> None) updates)
                    ([], lastWrittenRef h)) = None"
    using ok' by (rule encodeUpdates_no_throw)
  show "useUrlStates_setValues strategy push debounceMs params updates (h, e)
            = (None,
               (h\<lparr>lastWrittenRef := snd (snd (encodeUpdates params updates ([], lastWrittenRef h)))\<rparr>,
                useUrlStates_writeToUrl strategy push
                  (fst (snd (encodeUpdates params updates ([], lastWrittenRef h)))) e))"
    using nt n by (rule setValues_direct)
  show "useUrlStates_setValues strategy push debounceMs params updates (h, e)
            = useUrlStates_setValues strategy push debounceMs params
                (filter (\<lambda>u. rec_get params (fst u) \<noteq> None) updates) (h, e)"
    unfolding setValues_direct [OF nt n] setValues_direct [OF nt' n]
    using encodeUpdates_skip [OF ok, of "([], lastWrittenRef h)"] by simp
next
  assume a: "timerInv (h, e) \<and> debouncedWriteRef h \<noteq> None"
  then obtain t where t: "debouncedWriteRef h = Some t" by auto
  from a have inv: "timerInv (h, e)" by simp
  have nt: "fst (encodeUpdates params updates ([], lastWrittenRef h)) = None"
    using ok by (rule encodeUpdates_no_throw)
  show "fst (useUrlStates_setValues strategy push debounceMs params updates (h, e)) = None"
    using nt by (simp add: useUrlStates_setValues_def Let_def case_prod_beta)
  show "map args (timeouts (snd (snd (useUrlStates_setValues strategy push debounceMs
                                            params updates (h, e)))))
            = [fst (snd (encodeUpdates params updates ([], lastWrittenRef h)))]"
    by (rule setValues_debounced [OF nt inv t])
  show "lastWrittenRef (fst (snd (useUrlStates_setValues strategy push debounceMs
                                        params updates (h, e))))
            = snd (snd (encodeUpdates params updates ([], lastWrittenRef h)))"
    by (rule setValues_debounced [OF nt inv t])
qed

text \<open>The same for \<open>useMultiUrlStates\<close>.\<close>

lemma own_unconfigured_keys_skipped_multi:
  assumes ok: "list_all (\<lambda>u. \<not> inheritedOnly params (fst u)) updates"
  shows
    "fst (encodeMultiUpdates params updates acc) = None
     \<and> encodeMultiUpdates params updates acc
       = encodeMultiUpdates params (filter (\<lambda>u. rec_get params (fst u) \<noteq> None) updates) acc
     \<and> (rec_get params k = None \<longrightarrow>
          rec_get (fst (snd (encodeMultiUpdates params updates ([], written)))) k = None
          \<and> rec_get (snd (snd (encodeMultiUpdates params updates ([], written)))) k
              = rec_get written k
          \<and> rec_get (applyMultiUpdates (fst (snd (encodeMultiUpdates params updates ([], written))))
                        current) k
              = rec_get current k)
     \<and> (distinct (map fst updates) \<and> rec_get updates c = Some v \<and> rec_get params c = Some p \<longrightarrow>
          rec_get (fst (snd (encodeMultiUpdates params updates ([], written)))) c
            = Some (encode p v)
          \<and> rec_get (snd (snd (encodeMultiUpdates params updates ([], written)))) c
            = Some \<lparr>lw_encoded = encode p v, lw_decoded = v\<rparr>
          \<and> rec_get (applyMultiUpdates (fst (snd (encodeMultiUpdates params updates ([], written))))
                        current) c
              = (if length (encode p v) = 0 then None else Some (encode p v)))
     \<and> (debouncedWriteRef h = None \<longrightarrow>
          useMultiUrlStates_setValues strategy push debounceMs params updates (h, e)
            = (None,
               (h\<lparr>lastWrittenRef :=
                    snd (snd (encodeMultiUpdates params updates ([], lastWrittenRef h)))\<rparr>,
                useMultiUrlStates_writeToUrl strategy push
                  (fst (snd (encodeMultiUpdates params updates ([], lastWrittenRef h)))) e)))"
proof (intro conjI impI)
  show "fst (encodeMultiUpdates params updates acc) = None"
    using ok by (rule encodeMultiUpdates_no_throw)
  show "encodeMultiUpdates params updates acc
       = encodeMultiUpdates params (filter (\<lambda>u. rec_get params (fst u) \<noteq> None) updates) acc"
    using ok by (rule encodeMultiUpdates_skip)
next
  assume n: "rec_get params k = None"
  show a: "rec_get (fst (snd (encodeMultiUpdates params updates ([], written)))) k = None"
    using encodeMultiUpdates_unconfigured [OF n, of updates "([], written)"] by simp
  show "rec_get (snd (snd (encodeMultiUpdates params updates ([], written)))) k = rec_get written k"
    using encodeMultiUpdates_unconfigured [OF n, of updates "([], written)"] by simp
  from a have "k \<notin> fst ` set (fst (snd (encodeMultiUpdates params updates ([], written))))"
    by (simp add: rec_get_None_keys)
  then show "rec_get (applyMultiUpdates (fst (snd (encodeMultiUpdates params updates ([], written))))
                        current) k
              = rec_get current k"
    by (rule rec_get_applyMultiUpdates_other)
next
  assume a: "distinct (map fst updates) \<and> rec_get updates c = Some v \<and> rec_get params c = Some p"
  then have d: "distinct (map fst updates)" and u: "rec_get updates c = Some v"
    and p: "rec_get params c = Some p" by simp_all
  note E = encodeMultiUpdates_configured [OF ok d u p, of "([], written)"]
  show f: "rec_get (fst (snd (encodeMultiUpdates params updates ([], written)))) c
            = Some (encode p v)"
    using E by simp
  show "rec_get (snd (snd (encodeMultiUpdates params updates ([], written)))) c
            = Some \<lparr>lw_encoded = encode p v, lw_decoded = v\<rparr>"
    using E by simp
  have "distinct (map fst (fst (snd (encodeMultiUpdates params updates ([], written)))))"
    by (rule encodeMultiUpdates_distinct) simp
  from rec_get_applyMultiUpdates_last [OF this f, of current]
  show "rec_get (applyMultiUpdates (fst (snd (encodeMultiUpdates params updates ([], written))))
                        current) c
              = (if length (encode p v) = 0 then None else Some (encode p v))"
    by simp
next
  assume n: "debouncedWriteRef h = None"
  have nt: "fst (encodeMultiUpdates params updates ([], lastWrittenRef h)) = None"
    using ok by (rule encodeMultiUpdates_no_throw)
  show "useMultiUrlStates_setValues strategy push debounceMs params updates (h, e)
            = (None,
               (h\<lparr>lastWrittenRef :=
                    snd (snd (encodeMultiUpdates params updates ([], lastWrittenRef h)))\<rparr>,
                useMultiUrlStates_writeToUrl strategy push
                  (fst (snd (encodeMultiUpdates params updates ([], lastWrittenRef h)))) e))"
    using nt n by (rule multi_setValues_direct)
qed

text \<open>
  An update key that is not configured but names an inherited member makes \<open>setValues\<close>
  throw, in both hooks: nothing is committed or scheduled, whatever else the update holds.
\<close>

lemma inherited_key_throws:
  assumes "\<not> list_all (\<lambda>u. \<not> inheritedOnly params (fst u)) updates"
  shows "fst (useUrlStates_setValues strategy push debounceMs params updates (h, e))
           = Some (Thrown ''TypeError'')
         \<and> snd (snd (useUrlStates_setValues strategy push debounceMs params updates (h, e))) = e"
  using setValues_thrown [OF encodeUpdates_throws [OF assms]] by simp

lemma inherited_key_throws_multi:
  assumes "\<not> list_all (\<lambda>u. \<not> inheritedOnly params (fst u)) updates"
  shows "fst (useMultiUrlStates_setValues strategy push debounceMs params updates (h, e))
           = Some (Thrown ''TypeError'')
         \<and> snd (snd (useMultiUrlStates_setValues strategy push debounceMs params updates (h, e))) = e"
  using multi_setValues_thrown [OF encodeMultiUpdates_throws [OF assms]] by simp

text \<open>
  Claim C7. In a batched update every key of the update object without a codec in the
  hook's \<open>params\<close> is to be passed over silently, contributing nothing to the encoded
  updates or the causality records and raising no error, while the updates of the
  configured keys are committed. The code does so for a key such as \<open>zz\<close>. It does not for
  a key that names a member every object inherits: with \<open>params\<close> holding a codec for \<open>a\<close>
  only, the update of \<open>a\<close> and \<open>constructor\<close> ends in a \<open>TypeError\<close>, in \<open>useUrlStates\<close> and
  in \<open>useMultiUrlStates\<close>; the record of \<open>a\<close> is written, and nothing is committed.
\<close>

theorem setValues_inherited_key:
  "useUrlStates_setValues queryStrategy False 0 [(''a'', defStringParam 1 ''x'')]
     [(''a'', ''1''), (''zz'', ''9'')] (useUrlStates_mount 0, browserAt ''/?k=v'')
     = (None,
        (\<lparr>lastWrittenRef = [(''a'', \<lparr>lw_encoded = Some ''1'', lw_decoded = ''1''\<rparr>)],
          pendingRef = None, cacheRef = (), debouncedWriteRef = None\<rparr>,
         \<lparr>has_window = True, href = ''/?k=v&a=1'', history_calls = [(False, ''/?k=v&a=1'')],
          popstates = 1, clock = 0, last_timer = 0, timeouts = []\<rparr>))
   \<and> useUrlStates_setValues queryStrategy False 0 [(''a'', defStringParam 1 ''x'')]
       [(''a'', ''1''), (''constructor'', ''9'')] (useUrlStates_mount 0, browserAt ''/?k=v'')
     = (Some (Thrown ''TypeError''),
        (\<lparr>lastWrittenRef = [(''a'', \<lparr>lw_encoded = Some ''1'', lw_decoded = ''1''\<rparr>)],
          pendingRef = None, cacheRef = (), debouncedWriteRef = None\<rparr>,
         browserAt ''/?k=v''))
   \<and> useMultiUrlStates_setValues queryStrategy False 0 [(''a'', multiStringParam 1 [])]
       [(''a'', [''1'']), (''constructor'', [''9''])] (useMultiUrlStates_mount 0, browserAt ''/?k=v'')
     = (Some (Thrown ''TypeError''),
        (\<lparr>lastWrittenRef = [(''a'', \<lparr>lw_encoded = [''1''], lw_decoded = [''1'']\<rparr>)],
          pendingRef = None, cacheRef = (), debouncedWriteRef = None\<rparr>,
         browserAt ''/?k=v''))"
proof -
  have u: "buildUrl queryStrategy ''/?k=v''
             (applyUpdates [(''a'', \<lparr>lw_encoded = Some ''1'', lw_decoded = ''1''\<rparr>)]
                (parse queryStrategy ''/?k=v'')) = ''/?k=v&a=1''"
    by code_simp
  have a: "useUrlStates_setValues queryStrategy False 0 [(''a'', defStringParam 1 ''x'')]
     [(''a'', ''1''), (''zz'', ''9'')] (useUrlStates_mount 0, browserAt ''/?k=v'')
     = (None,
        (\<lparr>lastWrittenRef = [(''a'', \<lparr>lw_encoded = Some ''1'', lw_decoded = ''1''\<rparr>)],
          pendingRef = None, cacheRef = (), debouncedWriteRef = None\<rparr>,
         \<lparr>has_window = True, href = ''/?k=v&a=1'', history_calls = [(False, ''/?k=v&a=1'')],
          popstates = 1, clock = 0, last_timer = 0, timeouts = []\<rparr>))"
    using u
    by (simp add: useUrlStates_setValues_def useUrlStates_mount_def installDebounce_def
          getProperty_def objectPrototypeKeys_def defStringParam_def Let_def browserAt_def
          useUrlStates_writeToUrl_def historyWrite_def)
  have b: "useUrlStates_setValues queryStrategy False 0 [(''a'', defStringParam 1 ''x'')]
       [(''a'', ''1''), (''constructor'', ''9'')] (useUrlStates_mount 0, browserAt ''/?k=v'')
     = (Some (Thrown ''TypeError''),
        (\<lparr>lastWrittenRef = [(''a'', \<lparr>lw_encoded = Some ''1'', lw_decoded = ''1''\<rparr>)],
          pendingRef = None, cacheRef = (), debouncedWriteRef = None\<rparr>,
         browserAt ''/?k=v''))"
    by (simp add: useUrlStates_setValues_def useUrlStates_mount_def installDebounce_def
          getProperty_def objectPrototypeKeys_def defStringParam_def Let_def)
  have c: "useMultiUrlStates_setValues queryStrategy False 0 [(''a'', multiStringParam 1 [])]
       [(''a'', [''1'']), (''constructor'', [''9''])] (useMultiUrlStates_mount 0, browserAt ''/?k=v'')
     = (Some (Thrown ''TypeError''),
        (\<lparr>lastWrittenRef = [(''a'', \<lparr>lw_encoded = [''1''], lw_decoded = [''1'']\<rparr>)],
          pendingRef = None, cacheRef = (), debouncedWriteRef = None\<rparr>,
         browserAt ''/?k=v''))"
    by (simp add: useMultiUrlStates_setValues_def useMultiUrlStates_mount_def installDebounce_def
          getProperty_def objectPrototypeKeys_def multiStringParam_def Let_def arraysEqual_def)
  from a b c show ?thesis by simp
qed


end
